theory Spec2Isabelle
  imports Main
begin

section \<open>Data model of the websocket hub\<close>

text \<open>
  The development follows the package \<^verbatim>\<open>websocket\<close> of taskflow-go: the hub file
  (\<^verbatim>\<open>Hub\<close>, \<^verbatim>\<open>TenantRoom\<close>, \<^verbatim>\<open>Message\<close>) and the client file (\<^verbatim>\<open>Client\<close> with its read and
  write pumps).

  A \<^verbatim>\<open>uuid.UUID\<close> is only ever compared for equality, so its sixteen bytes are read as one
  number. A \<^verbatim>\<open>*Client\<close> pointer is an address; the objects live in a store. \<^verbatim>\<open>MessageType\<close>
  is a Go string type: a frame may carry any string there, the constants name ten of them.
\<close>

type_synonym uuid = nat
type_synonym bytes = string
type_synonym cid = nat
type_synonym MessageType = string

definition MessageTypeTaskUpdate :: MessageType where
  "MessageTypeTaskUpdate = ''task_update''"

definition MessageTypeTaskCreate :: MessageType where
  "MessageTypeTaskCreate = ''task_create''"

definition MessageTypeTaskDelete :: MessageType where
  "MessageTypeTaskDelete = ''task_delete''"

definition MessageTypeNotification :: MessageType where
  "MessageTypeNotification = ''notification''"

definition MessageTypeUserJoined :: MessageType where
  "MessageTypeUserJoined = ''user_joined''"

definition MessageTypeUserLeft :: MessageType where
  "MessageTypeUserLeft = ''user_left''"

definition MessageTypeTyping :: MessageType where
  "MessageTypeTyping = ''typing''"

definition MessageTypePing :: MessageType where
  "MessageTypePing = ''ping''"

definition MessageTypePong :: MessageType where
  "MessageTypePong = ''pong''"

definition MessageTypeError :: MessageType where
  "MessageTypeError = ''error''"

text \<open>
  \<^verbatim>\<open>interface{}\<close> values that the hub builds or carries: nil, a string, a UUID, or a
  \<^verbatim>\<open>map[string]interface{}\<close> (its entries listed; the keys are distinct).
\<close>

datatype iface = NilV | StrV string | UuidV uuid | MapV "(string \<times> iface) list"

record Message =
  Type :: MessageType
  Data :: iface
  UserID :: uuid
  TenantID :: uuid
  Timestamp :: int
  MessageID :: string
  Meta :: iface

subsection \<open>Channels\<close>

text \<open>
  A buffered Go channel: the values queued, the capacity given to \<^verbatim>\<open>make\<close>, and whether
  \<^verbatim>\<open>close\<close> has been called. A statement that panics, or that cannot proceed in the
  present state, ends the step with a \<open>stuck\<close> value.
\<close>

record 'a chan =
  buf :: "'a list"
  cap :: nat
  closed :: bool

datatype stuck = SendOnClosedChannel | CloseOfClosedChannel | WouldBlock

definition make_chan :: "nat \<Rightarrow> 'a chan" where
  "make_chan n = \<lparr>buf = [], cap = n, closed = False\<rparr>"

text \<open>The blocking send \<^verbatim>\<open>ch <- v\<close>.\<close>

definition chan_send :: "'a chan \<Rightarrow> 'a \<Rightarrow> stuck + 'a chan" where
  "chan_send ch v =
     (if closed ch then Inl SendOnClosedChannel
      else if length (buf ch) < cap ch then Inr (ch\<lparr>buf := buf ch @ [v]\<rparr>)
      else Inl WouldBlock)"

text \<open>
  The send of \<^verbatim>\<open>select { case ch <- v: ... default: ... }\<close>: \<open>Some\<close> when the send case
  ran, \<open>None\<close> when the default case ran. On a closed channel the send case is chosen and
  panics.
\<close>

definition chan_try_send :: "'a chan \<Rightarrow> 'a \<Rightarrow> stuck + 'a chan option" where
  "chan_try_send ch v =
     (if closed ch then Inl SendOnClosedChannel
      else if length (buf ch) < cap ch then Inr (Some (ch\<lparr>buf := buf ch @ [v]\<rparr>))
      else Inr None)"

definition chan_close :: "'a chan \<Rightarrow> stuck + 'a chan" where
  "chan_close ch =
     (if closed ch then Inl CloseOfClosedChannel else Inr (ch\<lparr>closed := True\<rparr>))"

subsection \<open>Client, TenantRoom, Hub\<close>

record Client =
  send :: "bytes chan"
  UserID :: uuid
  UserName :: string
  TenantID :: uuid
  Role :: string

text \<open>
  \<^verbatim>\<open>clients map[*Client]bool\<close> is used as a set. Its entries are listed without
  repetition; the order of the list stands for whichever order a \<^verbatim>\<open>range\<close> over the map
  takes, which Go leaves open.
\<close>

record TenantRoom =
  TenantID :: uuid
  clients :: "cid list"
  broadcast :: "Message chan"

text \<open>
  The hub's map of rooms together with the Client objects its pointers reach. The
  unbuffered channels \<^verbatim>\<open>register\<close>, \<^verbatim>\<open>unregister\<close> and \<^verbatim>\<open>broadcast\<close> hand a value straight to
  \<^verbatim>\<open>Hub.Run\<close>, which calls the function below for it; each call is one step. A room that
  \<^verbatim>\<open>unregisterClient\<close> deletes from the map has no member and can get none, so its
  goroutine delivers nothing more and the room is dropped from the state.
\<close>

record Hub =
  tenants :: "uuid \<rightharpoonup> TenantRoom"
  store :: "cid \<Rightarrow> Client"

text \<open>
  Library functions the package calls: \<^verbatim>\<open>json.Marshal\<close> on a Message (None for an
  error), \<^verbatim>\<open>json.Unmarshal\<close> into a Message, and \<^verbatim>\<open>bytes.TrimSpace\<close>.
\<close>

record lib =
  marshal :: "Message \<Rightarrow> bytes option"
  unmarshal :: "bytes \<Rightarrow> Message option"
  trimSpace :: "bytes \<Rightarrow> bytes"

definition NewHub :: "(cid \<Rightarrow> Client) \<Rightarrow> Hub" where
  "NewHub st = \<lparr>tenants = Map.empty, store = st\<rparr>"

section \<open>Hub operations\<close>

definition joinMessage :: "Client \<Rightarrow> int \<Rightarrow> string \<Rightarrow> Message" where
  "joinMessage c now mid =
     \<lparr>Type = MessageTypeUserJoined,
      Data = MapV [(''user_id'', UuidV (Client.UserID c)), (''user_name'', StrV (UserName c))],
      Message.UserID = Client.UserID c,
      Message.TenantID = Client.TenantID c,
      Timestamp = now,
      MessageID = mid,
      Meta = NilV\<rparr>"

definition leaveMessage :: "Client \<Rightarrow> int \<Rightarrow> string \<Rightarrow> Message" where
  "leaveMessage c now mid =
     \<lparr>Type = MessageTypeUserLeft,
      Data = MapV [(''user_id'', UuidV (Client.UserID c)), (''user_name'', StrV (UserName c))],
      Message.UserID = Client.UserID c,
      Message.TenantID = Client.TenantID c,
      Timestamp = now,
      MessageID = mid,
      Meta = NilV\<rparr>"

text \<open>\<^verbatim>\<open>room.clients[client] = true\<close>.\<close>

definition add_client :: "cid \<Rightarrow> cid list \<Rightarrow> cid list" where
  "add_client client cs = (if client \<in> set cs then cs else cs @ [client])"

text \<open>
  \<^verbatim>\<open>Hub.registerClient\<close>; \<open>now\<close> and \<open>mid\<close> are what \<^verbatim>\<open>getCurrentTimestamp()\<close> and
  \<^verbatim>\<open>generateMessageID()\<close> return. The final \<^verbatim>\<open>room.broadcast <- joinMessage\<close> is a blocking
  send.
\<close>

definition registerClient :: "cid \<Rightarrow> int \<Rightarrow> string \<Rightarrow> Hub \<Rightarrow> stuck + Hub" where
  "registerClient client now mid h =
     (let c = store h client;
          room = (case tenants h (Client.TenantID c) of
                    None \<Rightarrow> \<lparr>TenantRoom.TenantID = Client.TenantID c, clients = [],
                              broadcast = make_chan 256\<rparr>
                  | Some r \<Rightarrow> r);
          room = room\<lparr>clients := add_client client (clients room)\<rparr>
      in case chan_send (broadcast room) (joinMessage c now mid) of
           Inl e \<Rightarrow> Inl e
         | Inr q \<Rightarrow>
             Inr (h\<lparr>tenants := (tenants h)(Client.TenantID c \<mapsto> room\<lparr>broadcast := q\<rparr>)\<rparr>))"

text \<open>\<^verbatim>\<open>Hub.unregisterClient\<close>.\<close>

definition unregisterClient :: "cid \<Rightarrow> int \<Rightarrow> string \<Rightarrow> Hub \<Rightarrow> stuck + Hub" where
  "unregisterClient client now mid h =
     (let c = store h client in
      case tenants h (Client.TenantID c) of
        None \<Rightarrow> Inr h
      | Some room \<Rightarrow>
          if client \<in> set (clients room) then
            (case chan_close (send c) of
               Inl e \<Rightarrow> Inl e
             | Inr ch \<Rightarrow>
                 (case chan_send (broadcast room) (leaveMessage c now mid) of
                    Inl e \<Rightarrow> Inl e
                  | Inr q \<Rightarrow>
                      (let members = removeAll client (clients room);
                           room' = room\<lparr>clients := members, broadcast := q\<rparr>
                       in Inr (h\<lparr>tenants :=
                                   (if members = []
                                    then (tenants h)(Client.TenantID c := None)
                                    else (tenants h)(Client.TenantID c \<mapsto> room')),
                                 store := (store h)(client := c\<lparr>send := ch\<rparr>)\<rparr>))))
          else Inr h)"

text \<open>\<^verbatim>\<open>Hub.broadcastMessage\<close>: a missing room and a full room queue both drop the message.\<close>

definition broadcastMessage :: "Message \<Rightarrow> Hub \<Rightarrow> stuck + Hub" where
  "broadcastMessage message h =
     (case tenants h (Message.TenantID message) of
        None \<Rightarrow> Inr h
      | Some room \<Rightarrow>
          (case chan_try_send (broadcast room) message of
             Inl e \<Rightarrow> Inl e
           | Inr None \<Rightarrow> Inr h
           | Inr (Some q) \<Rightarrow>
               Inr (h\<lparr>tenants := (tenants h)(Message.TenantID message \<mapsto> room\<lparr>broadcast := q\<rparr>)\<rparr>)))"

text \<open>
  \<^verbatim>\<open>Hub.BroadcastToTenant\<close>: the hub's \<^verbatim>\<open>broadcast\<close> channel is unbuffered, so the send case
  runs only when \<^verbatim>\<open>Hub.Run\<close> is waiting at its \<^verbatim>\<open>select\<close> (\<open>ready\<close>), and \<^verbatim>\<open>Run\<close> then calls
  \<^verbatim>\<open>broadcastMessage\<close>; otherwise the message is dropped.
\<close>

definition BroadcastToTenant ::
  "uuid \<Rightarrow> MessageType \<Rightarrow> iface \<Rightarrow> int \<Rightarrow> string \<Rightarrow> bool \<Rightarrow> Hub \<Rightarrow> stuck + Hub" where
  "BroadcastToTenant tenantID messageType data now mid ready h =
     (let message = \<lparr>Type = messageType, Data = data, Message.UserID = 0,
                     Message.TenantID = tenantID, Timestamp = now, MessageID = mid,
                     Meta = NilV\<rparr>
      in if ready then broadcastMessage message h else Inr h)"

text \<open>
  The body shared by the two delivery loops:
  \<^verbatim>\<open>select { case client.send <- messageBytes: default: close(client.send); delete(clients, client) }\<close>.
  The result is the client's channel and whether the client stays in the map.
\<close>

definition send_or_drop :: "bytes \<Rightarrow> bytes chan \<Rightarrow> stuck + (bytes chan \<times> bool)" where
  "send_or_drop messageBytes ch =
     (case chan_try_send ch messageBytes of
        Inl e \<Rightarrow> Inl e
      | Inr (Some ch') \<Rightarrow> Inr (ch', True)
      | Inr None \<Rightarrow> (case chan_close ch of Inl e \<Rightarrow> Inl e | Inr ch' \<Rightarrow> Inr (ch', False)))"

text \<open>
  \<^verbatim>\<open>for client := range tr.clients\<close> of \<^verbatim>\<open>TenantRoom.run\<close>, over the entries of the map; it
  returns the store and the entries that remain.
\<close>

fun fanout :: "bytes \<Rightarrow> cid list \<Rightarrow> (cid \<Rightarrow> Client) \<Rightarrow> stuck + ((cid \<Rightarrow> Client) \<times> cid list)" where
  "fanout messageBytes [] st = Inr (st, [])"
| "fanout messageBytes (client # cs) st =
     (case send_or_drop messageBytes (send (st client)) of
        Inl e \<Rightarrow> Inl e
      | Inr (ch, keep) \<Rightarrow>
          (case fanout messageBytes cs (st(client := (st client)\<lparr>send := ch\<rparr>)) of
             Inl e \<Rightarrow> Inl e
           | Inr (st', rest) \<Rightarrow> Inr (st', if keep then client # rest else rest)))"

text \<open>
  One iteration of \<^verbatim>\<open>for message := range tr.broadcast\<close> in \<^verbatim>\<open>TenantRoom.run\<close>, for the room
  of tenant \<open>t\<close>: it waits while the queue is empty; a message that does not marshal is
  skipped.
\<close>

definition run_step :: "lib \<Rightarrow> uuid \<Rightarrow> Hub \<Rightarrow> stuck + Hub" where
  "run_step l t h =
     (case tenants h t of
        None \<Rightarrow> Inl WouldBlock
      | Some tr \<Rightarrow>
          (case buf (broadcast tr) of
             [] \<Rightarrow> Inl WouldBlock
           | message # queued \<Rightarrow>
               (let tr' = tr\<lparr>broadcast := (broadcast tr)\<lparr>buf := queued\<rparr>\<rparr> in
                case marshal l message of
                  None \<Rightarrow> Inr (h\<lparr>tenants := (tenants h)(t \<mapsto> tr')\<rparr>)
                | Some messageBytes \<Rightarrow>
                    (case fanout messageBytes (clients tr') (store h) of
                       Inl e \<Rightarrow> Inl e
                     | Inr (st, members) \<Rightarrow>
                         Inr (h\<lparr>tenants := (tenants h)(t \<mapsto> tr'\<lparr>clients := members\<rparr>),
                               store := st\<rparr>)))))"

text \<open>The first \<open>n\<close> iterations of the loop of \<^verbatim>\<open>TenantRoom.run\<close>.\<close>

fun run :: "lib \<Rightarrow> uuid \<Rightarrow> nat \<Rightarrow> Hub \<Rightarrow> stuck + Hub" where
  "run l t 0 h = Inr h"
| "run l t (Suc n) h = (case run_step l t h of Inl e \<Rightarrow> Inl e | Inr h' \<Rightarrow> run l t n h')"

text \<open>The loop of \<^verbatim>\<open>Hub.BroadcastToUser\<close>: only the clients of \<open>userID\<close> are sent to.\<close>

fun send_user ::
  "uuid \<Rightarrow> bytes \<Rightarrow> cid list \<Rightarrow> (cid \<Rightarrow> Client) \<Rightarrow> stuck + ((cid \<Rightarrow> Client) \<times> cid list)" where
  "send_user userID messageBytes [] st = Inr (st, [])"
| "send_user userID messageBytes (client # cs) st =
     (if Client.UserID (st client) = userID then
        (case send_or_drop messageBytes (send (st client)) of
           Inl e \<Rightarrow> Inl e
         | Inr (ch, keep) \<Rightarrow>
             (case send_user userID messageBytes cs (st(client := (st client)\<lparr>send := ch\<rparr>)) of
                Inl e \<Rightarrow> Inl e
              | Inr (st', rest) \<Rightarrow> Inr (st', if keep then client # rest else rest)))
      else
        (case send_user userID messageBytes cs st of
           Inl e \<Rightarrow> Inl e
         | Inr (st', rest) \<Rightarrow> Inr (st', client # rest)))"

definition userMessage :: "uuid \<Rightarrow> uuid \<Rightarrow> MessageType \<Rightarrow> iface \<Rightarrow> int \<Rightarrow> string \<Rightarrow> Message" where
  "userMessage tenantID userID messageType data now mid =
     \<lparr>Type = messageType, Data = data, Message.UserID = userID,
      Message.TenantID = tenantID, Timestamp = now, MessageID = mid, Meta = NilV\<rparr>"

text \<open>\<^verbatim>\<open>Hub.BroadcastToUser\<close>.\<close>

definition BroadcastToUser ::
  "lib \<Rightarrow> uuid \<Rightarrow> uuid \<Rightarrow> MessageType \<Rightarrow> iface \<Rightarrow> int \<Rightarrow> string \<Rightarrow> Hub \<Rightarrow> stuck + Hub" where
  "BroadcastToUser l tenantID userID messageType data now mid h =
     (case tenants h tenantID of
        None \<Rightarrow> Inr h
      | Some room \<Rightarrow>
          (case marshal l (userMessage tenantID userID messageType data now mid) of
             None \<Rightarrow> Inr h
           | Some messageBytes \<Rightarrow>
               (case send_user userID messageBytes (clients room) (store h) of
                  Inl e \<Rightarrow> Inl e
                | Inr (st, members) \<Rightarrow>
                    Inr (h\<lparr>tenants := (tenants h)(tenantID \<mapsto> room\<lparr>clients := members\<rparr>),
                          store := st\<rparr>))))"

text \<open>\<^verbatim>\<open>Hub.GetClientCount\<close> and \<^verbatim>\<open>Hub.GetOnlineUsers\<close> (the users without repetition).\<close>

definition GetClientCount :: "uuid \<Rightarrow> Hub \<Rightarrow> nat" where
  "GetClientCount tenantID h =
     (case tenants h tenantID of None \<Rightarrow> 0 | Some room \<Rightarrow> length (clients room))"

definition GetOnlineUsers :: "uuid \<Rightarrow> Hub \<Rightarrow> uuid list" where
  "GetOnlineUsers tenantID h =
     (case tenants h tenantID of
        None \<Rightarrow> []
      | Some room \<Rightarrow> remdups (map (\<lambda>client. Client.UserID (store h client)) (clients room)))"

section \<open>Client operations\<close>

definition maxMessageSize :: nat where
  "maxMessageSize = 512"

definition newline :: bytes where
  "newline = [CHR 0x0A]"

definition space :: bytes where
  "space = '' ''"

text \<open>
  What \<^verbatim>\<open>time.Now().Unix()\<close> and \<^verbatim>\<open>uuid.New().String()\<close> return while one frame is handled:
  first in \<^verbatim>\<open>readPump\<close>, then in the handler (\<^verbatim>\<open>handlePing\<close>, \<^verbatim>\<open>handleTyping\<close>, \<^verbatim>\<open>sendError\<close>).
\<close>

record fresh =
  readTime :: int
  readID :: string
  handlerTime :: int
  handlerID :: string

text \<open>
  The channel statement a handler ends with: \<^verbatim>\<open>c.hub.broadcast <- message\<close>, or, for a reply
  to the client itself, \<^verbatim>\<open>json.Marshal\<close> followed by
  \<^verbatim>\<open>select { case c.send <- messageBytes: default: close(c.send) }\<close>.
\<close>

datatype chan_op = HubBroadcast Message | SendOrClose Message

definition handlePing :: "Client \<Rightarrow> fresh \<Rightarrow> chan_op" where
  "handlePing c fr =
     SendOrClose \<lparr>Type = MessageTypePong, Data = NilV, Message.UserID = Client.UserID c,
                  Message.TenantID = Client.TenantID c, Timestamp = handlerTime fr,
                  MessageID = handlerID fr, Meta = NilV\<rparr>"

definition handleTyping :: "Client \<Rightarrow> fresh \<Rightarrow> Message \<Rightarrow> chan_op" where
  "handleTyping c fr message =
     HubBroadcast (message\<lparr>Message.UserID := Client.UserID c,
                           Message.TenantID := Client.TenantID c,
                           Timestamp := handlerTime fr\<rparr>)"

definition handleMessage :: "Client \<Rightarrow> fresh \<Rightarrow> Message \<Rightarrow> chan_op" where
  "handleMessage c fr message =
     (if Type message = MessageTypePing then handlePing c fr
      else if Type message = MessageTypeTyping then handleTyping c fr message
      else HubBroadcast message)"

definition sendError :: "Client \<Rightarrow> fresh \<Rightarrow> string \<Rightarrow> chan_op" where
  "sendError c fr errorMsg =
     SendOrClose \<lparr>Type = MessageTypeError, Data = MapV [(''error'', StrV errorMsg)],
                  Message.UserID = Client.UserID c, Message.TenantID = Client.TenantID c,
                  Timestamp = handlerTime fr, MessageID = handlerID fr, Meta = NilV\<rparr>"

text \<open>
  The effect of the channel statement of client \<open>client\<close>. The hub's \<^verbatim>\<open>broadcast\<close> channel is
  unbuffered: the blocking send hands the message to \<^verbatim>\<open>Hub.Run\<close>, which calls
  \<^verbatim>\<open>broadcastMessage\<close>. A reply that does not marshal is logged and not sent.
\<close>

definition perform :: "lib \<Rightarrow> cid \<Rightarrow> chan_op \<Rightarrow> Hub \<Rightarrow> stuck + Hub" where
  "perform l client op h =
     (case op of
        HubBroadcast message \<Rightarrow> broadcastMessage message h
      | SendOrClose message \<Rightarrow>
          (case marshal l message of
             None \<Rightarrow> Inr h
           | Some messageBytes \<Rightarrow>
               (let c = store h client in
                case chan_try_send (send c) messageBytes of
                  Inl e \<Rightarrow> Inl e
                | Inr (Some ch) \<Rightarrow> Inr (h\<lparr>store := (store h)(client := c\<lparr>send := ch\<rparr>)\<rparr>)
                | Inr None \<Rightarrow>
                    (case chan_close (send c) of
                       Inl e \<Rightarrow> Inl e
                     | Inr ch \<Rightarrow> Inr (h\<lparr>store := (store h)(client := c\<lparr>send := ch\<rparr>)\<rparr>)))))"

text \<open>\<^verbatim>\<open>bytes.TrimSpace(bytes.Replace(messageBytes, newline, space, -1))\<close>.\<close>

definition clean :: "lib \<Rightarrow> bytes \<Rightarrow> bytes" where
  "clean l messageBytes =
     trimSpace l (concat (map (\<lambda>b. if [b] = newline then space else [b]) messageBytes))"

text \<open>The lines of \<^verbatim>\<open>readPump\<close> headed \<^verbatim>\<open>Set client information\<close>.\<close>

definition stamp :: "Client \<Rightarrow> fresh \<Rightarrow> Message \<Rightarrow> Message" where
  "stamp c fr incomingMessage =
     incomingMessage\<lparr>Message.UserID := Client.UserID c,
                     Message.TenantID := Client.TenantID c,
                     Timestamp := readTime fr,
                     MessageID := readID fr\<rparr>"

text \<open>The channel statement that the body of the loop of \<^verbatim>\<open>readPump\<close> ends with, for one frame read.\<close>

definition route :: "lib \<Rightarrow> Client \<Rightarrow> fresh \<Rightarrow> bytes \<Rightarrow> chan_op" where
  "route l c fr messageBytes =
     (case unmarshal l (clean l messageBytes) of
        None \<Rightarrow> sendError c fr ''Invalid message format''
      | Some incomingMessage \<Rightarrow> handleMessage c fr (stamp c fr incomingMessage))"

definition readPump_frame :: "lib \<Rightarrow> cid \<Rightarrow> fresh \<Rightarrow> bytes \<Rightarrow> Hub \<Rightarrow> stuck + Hub" where
  "readPump_frame l client fr messageBytes h =
     perform l client (route l (store h client) fr messageBytes) h"

text \<open>
  \<^verbatim>\<open>Client.readPump\<close> on the frames that arrive before \<^verbatim>\<open>ReadMessage\<close> fails (the stream
  ends, the deadline passes, or a frame exceeds the read limit); the deferred function
  then hands the client to \<^verbatim>\<open>unregister\<close>, with \<open>now\<close> and \<open>mid\<close> for its leave message.
\<close>

fun readPump :: "lib \<Rightarrow> cid \<Rightarrow> (bytes \<times> fresh) list \<Rightarrow> int \<Rightarrow> string \<Rightarrow> Hub \<Rightarrow> stuck + Hub" where
  "readPump l client [] now mid h = unregisterClient client now mid h"
| "readPump l client ((messageBytes, fr) # frames) now mid h =
     (if maxMessageSize < length messageBytes then unregisterClient client now mid h
      else (case readPump_frame l client fr messageBytes h of
              Inl e \<Rightarrow> Inl e
            | Inr h' \<Rightarrow> readPump l client frames now mid h'))"

text \<open>
  What \<^verbatim>\<open>writePump\<close> puts on the wire. The loop headed
  \<^verbatim>\<open>Add queued chat messages to the current websocket message\<close> writes, for each message
  still queued, a newline and the message into the writer that is already open.
\<close>

datatype wire = TextMessage bytes | CloseMessage | PingMessage

datatype io = IoOk | NextWriterErr | CloseErr

fun queued :: "bytes list \<Rightarrow> bytes" where
  "queued [] = []"
| "queued (m # ms) = newline @ m @ queued ms"

text \<open>
  The case \<^verbatim>\<open>message, ok := <-c.send\<close> of \<^verbatim>\<open>writePump\<close>: the frames written, the channel
  afterwards, and whether the loop goes on. A receive on an empty open channel waits.
\<close>

definition writePump_recv :: "io \<Rightarrow> bytes chan \<Rightarrow> stuck + (wire list \<times> bytes chan \<times> bool)" where
  "writePump_recv conn ch =
     (case buf ch of
        [] \<Rightarrow> if closed ch then Inr ([CloseMessage], ch, False) else Inl WouldBlock
      | message # rest \<Rightarrow>
          if conn = NextWriterErr then Inr ([], ch\<lparr>buf := rest\<rparr>, False)
          else if conn = CloseErr then Inr ([], ch\<lparr>buf := []\<rparr>, False)
          else Inr ([TextMessage (message @ queued rest)], ch\<lparr>buf := []\<rparr>, True))"

text \<open>
  The case \<^verbatim>\<open><-ticker.C\<close> of \<^verbatim>\<open>writePump\<close>: a ping control frame, or the end of the loop
  when the write fails.
\<close>

definition writePump_tick :: "bool \<Rightarrow> wire list \<times> bool" where
  "writePump_tick ok = (if ok then ([PingMessage], True) else ([], False))"

section \<open>Executions\<close>

text \<open>
  The entry points of the package as steps on the shared state: what \<^verbatim>\<open>Hub.Run\<close> does for a
  value received on \<^verbatim>\<open>register\<close> or \<^verbatim>\<open>unregister\<close>, the two producer calls, one iteration
  of a room's loop, one frame read by a client's read pump, one receive of its write pump.
  A step runs from its beginning to its end without another step in between, as the
  locks of the hub and of the room arrange for the code they guard; an execution is any
  sequence of steps, and it ends at the first step that panics or cannot proceed.
\<close>

datatype op =
    Register cid int string
  | Unregister cid int string
  | ToTenant uuid MessageType iface int string bool
  | ToUser uuid uuid MessageType iface int string
  | RoomRun uuid
  | ReadFrame cid bytes fresh
  | WriteRecv cid io

fun step :: "lib \<Rightarrow> op \<Rightarrow> Hub \<Rightarrow> stuck + Hub" where
  "step l (Register client now mid) h = registerClient client now mid h"
| "step l (Unregister client now mid) h = unregisterClient client now mid h"
| "step l (ToTenant tenantID ty data now mid ready) h =
     BroadcastToTenant tenantID ty data now mid ready h"
| "step l (ToUser tenantID userID ty data now mid) h =
     BroadcastToUser l tenantID userID ty data now mid h"
| "step l (RoomRun t) h = run_step l t h"
| "step l (ReadFrame client messageBytes fr) h = readPump_frame l client fr messageBytes h"
| "step l (WriteRecv client conn) h =
     (case writePump_recv conn (send (store h client)) of
        Inl e \<Rightarrow> Inl e
      | Inr (out, ch, continue) \<Rightarrow>
          Inr (h\<lparr>store := (store h)(client := (store h client)\<lparr>send := ch\<rparr>)\<rparr>))"

fun exec :: "lib \<Rightarrow> op list \<Rightarrow> Hub \<Rightarrow> stuck + Hub" where
  "exec l [] h = Inr h"
| "exec l (x # xs) h = (case step l x h of Inl e \<Rightarrow> Inl e | Inr h' \<Rightarrow> exec l xs h')"

text \<open>
  Every room is filed under its own tenant, holds only clients of that tenant, and has
  only messages of that tenant queued.
\<close>

definition tenant_inv :: "Hub \<Rightarrow> bool" where
  "tenant_inv h =
     (\<forall>t room. tenants h t = Some room \<longrightarrow>
        TenantRoom.TenantID room = t
        \<and> (\<forall>client \<in> set (clients room). Client.TenantID (store h client) = t)
        \<and> (\<forall>m \<in> set (buf (broadcast room)). Message.TenantID m = t))"

text \<open>No room of the map is without members.\<close>

definition no_empty_room :: "Hub \<Rightarrow> bool" where
  "no_empty_room h = (\<forall>t room. tenants h t = Some room \<longrightarrow> clients room \<noteq> [])"

section \<open>Example states\<close>

text \<open>
  A client of user 7 in tenant 3 as \<^verbatim>\<open>HandleWebSocket\<close> creates it, a hub before and after
  its registration and after its unregistration, and a stand-in for the JSON library that
  takes the frame \<open>''bad''\<close> for malformed and reads any other frame as a message of that
  type which claims to come from user 99 in tenant 98.
\<close>

definition ex_client :: Client where
  "ex_client = \<lparr>send = make_chan 256, Client.UserID = 7, UserName = ''ann'',
                Client.TenantID = 3, Role = ''user''\<rparr>"

definition ex_new :: Hub where
  "ex_new = NewHub (\<lambda>a. ex_client)"

definition ex_room :: TenantRoom where
  "ex_room = \<lparr>TenantRoom.TenantID = 3, clients = [1],
              broadcast = \<lparr>buf = [joinMessage ex_client 10 ''m1''], cap = 256, closed = False\<rparr>\<rparr>"

definition ex_joined :: Hub where
  "ex_joined = \<lparr>tenants = [3 \<mapsto> ex_room], store = (\<lambda>a. ex_client)\<rparr>"

definition ex_left :: Hub where
  "ex_left = \<lparr>tenants = Map.empty,
              store = (\<lambda>a. ex_client)
                        (1 := ex_client\<lparr>send := \<lparr>buf = [], cap = 256, closed = True\<rparr>\<rparr>)\<rparr>"

definition ex_lib :: lib where
  "ex_lib = \<lparr>marshal = (\<lambda>m. Some (Type m @ '':'' @ MessageID m)),
             unmarshal = (\<lambda>b. if b = ''bad'' then None
                              else Some \<lparr>Type = b, Data = NilV, Message.UserID = 99,
                                        Message.TenantID = 98, Timestamp = 0,
                                        MessageID = ''forged'', Meta = NilV\<rparr>),
             trimSpace = (\<lambda>b. b)\<rparr>"

definition ex_fresh :: fresh where
  "ex_fresh = \<lparr>readTime = 100, readID = ''r1'', handlerTime = 101, handlerID = ''r2''\<rparr>"

text \<open>
  The registered client with \<open>k\<close> frames of a targeted notification waiting in its queue,
  and the same client with 256 of them once the queue has been closed.
\<close>

definition ex_filled :: "nat \<Rightarrow> Hub" where
  "ex_filled k = \<lparr>tenants = [3 \<mapsto> ex_room],
                  store = (\<lambda>a. ex_client)
                    (1 := ex_client\<lparr>send := \<lparr>buf = replicate k ''notification:n1'', cap = 256,
                                               closed = False\<rparr>\<rparr>)\<rparr>"

definition ex_closed :: Hub where
  "ex_closed = \<lparr>tenants = [3 \<mapsto> ex_room],
                store = (\<lambda>a. ex_client)
                    (1 := ex_client\<lparr>send := \<lparr>buf = replicate 256 ''notification:n1'', cap = 256,
                                               closed = True\<rparr>\<rparr>)\<rparr>"

definition ex_dropped :: Hub where
  "ex_dropped = \<lparr>tenants = [3 \<mapsto> ex_room\<lparr>clients := []\<rparr>],
                store = (\<lambda>a. ex_client)
                    (1 := ex_client\<lparr>send := \<lparr>buf = replicate 256 ''notification:n1'', cap = 256,
                                               closed = True\<rparr>\<rparr>)\<rparr>"

text \<open>
  The registered client's room once a tenant-wide task update has been queued behind the
  join message, and the hub after the room's loop has handled both messages.
\<close>

definition ex_update :: Message where
  "ex_update = \<lparr>Type = ''task_update'', Data = NilV, Message.UserID = 0,
                 Message.TenantID = 3, Timestamp = 12, MessageID = ''m4'', Meta = NilV\<rparr>"

definition ex_two :: Hub where
  "ex_two = \<lparr>tenants = [3 \<mapsto> ex_room\<lparr>broadcast :=
                 \<lparr>buf = [joinMessage ex_client 10 ''m1'', ex_update], cap = 256,
                  closed = False\<rparr>\<rparr>],
             store = (\<lambda>a. ex_client)\<rparr>"

definition ex_delivered :: Hub where
  "ex_delivered = \<lparr>tenants = [3 \<mapsto> ex_room\<lparr>broadcast :=
                       \<lparr>buf = [], cap = 256, closed = False\<rparr>\<rparr>],
                   store = (\<lambda>a. ex_client)
                     (1 := ex_client\<lparr>send := \<lparr>buf = [''user_joined:m1'', ''task_update:m4''],
                                                cap = 256, closed = False\<rparr>\<rparr>)\<rparr>"

text \<open>
  A second client, of user 8 in tenant 4, at address 2, and the hub once both clients
  are registered.
\<close>

definition ex_other :: Client where
  "ex_other = \<lparr>send = make_chan 256, Client.UserID = 8, UserName = ''bob'',
               Client.TenantID = 4, Role = ''user''\<rparr>"

definition ex_both :: Hub where
  "ex_both = \<lparr>tenants = [3 \<mapsto> ex_room,
                         4 \<mapsto> \<lparr>TenantRoom.TenantID = 4, clients = [2],
                               broadcast = \<lparr>buf = [joinMessage ex_other 11 ''m5''],
                                            cap = 256, closed = False\<rparr>\<rparr>],
              store = (\<lambda>a. ex_client)(2 := ex_other)\<rparr>"

section \<open>Properties\<close>

subsection \<open>Registration\<close>

text \<open>
  Claim C7. Processing a register request for a connection creates the room of the
  connection's tenant if it is absent, adds the connection to the room's members, and
  hands exactly one UserJoined message to the room's broadcast queue; the message carries
  the connection's user and tenant and the payload made of its user id and user name.
  The send to the room's queue is a blocking one, so the request is processed to its end
  when the queue of an existing room has a free slot.
\<close>

theorem register_postcondition:
  assumes "case tenants h (Client.TenantID (store h client)) of
             None \<Rightarrow> True
           | Some room \<Rightarrow> \<not> closed (broadcast room)
                         \<and> length (buf (broadcast room)) < cap (broadcast room)"
  shows "\<exists>room'. registerClient client now mid h =
                   Inr (h\<lparr>tenants := (tenants h)(Client.TenantID (store h client) \<mapsto> room')\<rparr>)
          \<and> TenantRoom.TenantID room' =
              (case tenants h (Client.TenantID (store h client)) of
                 None \<Rightarrow> Client.TenantID (store h client) | Some room \<Rightarrow> TenantRoom.TenantID room)
          \<and> set (clients room') =
              insert client (case tenants h (Client.TenantID (store h client)) of
                               None \<Rightarrow> {} | Some room \<Rightarrow> set (clients room))
          \<and> buf (broadcast room') =
              (case tenants h (Client.TenantID (store h client)) of
                 None \<Rightarrow> [] | Some room \<Rightarrow> buf (broadcast room))
              @ [\<lparr>Type = MessageTypeUserJoined,
                   Data = MapV [(''user_id'', UuidV (Client.UserID (store h client))),
                                (''user_name'', StrV (UserName (store h client)))],
                   Message.UserID = Client.UserID (store h client),
                   Message.TenantID = Client.TenantID (store h client),
                   Timestamp = now, MessageID = mid, Meta = NilV\<rparr>]"
  using assms
  by (auto simp: registerClient_def Let_def chan_send_def make_chan_def add_client_def
                 joinMessage_def split: option.splits)

theorem register_postcondition_witness:
  "tenants ex_new 3 = None
   \<and> registerClient 1 10 ''m1'' ex_new = Inr ex_joined
   \<and> clients ex_room = [1]
   \<and> buf (broadcast ex_room) =
       [\<lparr>Type = ''user_joined'',
         Data = MapV [(''user_id'', UuidV 7), (''user_name'', StrV ''ann'')],
         Message.UserID = 7, Message.TenantID = 3,
         Timestamp = 10, MessageID = ''m1'', Meta = NilV\<rparr>]"
  using register_postcondition [of ex_new 1 10 "''m1''"]
  by (simp add: registerClient_def ex_new_def NewHub_def ex_client_def ex_joined_def
                ex_room_def make_chan_def chan_send_def add_client_def Let_def
                joinMessage_def MessageTypeUserJoined_def)

subsection \<open>Unregistration\<close>

lemma unregister_absent:
  "tenants h (Client.TenantID (store h client)) = None \<Longrightarrow>
   unregisterClient client now mid h = Inr h"
  by (simp add: unregisterClient_def)

lemma unregister_not_member:
  "tenants h (Client.TenantID (store h client)) = Some room \<Longrightarrow>
   client \<notin> set (clients room) \<Longrightarrow>
   unregisterClient client now mid h = Inr h"
  by (simp add: unregisterClient_def)

text \<open>
  Claim C8. Processing unregister a second time for a connection that has been
  unregistered changes nothing: the state after the second call is the state after the
  first, so there is no second removal, no second close and no second UserLeft. The same
  holds for a connection that is not in its room when unregister is processed.
\<close>

theorem unregister_idempotent:
  "(unregisterClient client now mid h = Inr h' \<longrightarrow>
      unregisterClient client now2 mid2 h' = Inr h')
   \<and> ((case tenants h (Client.TenantID (store h client)) of
          None \<Rightarrow> True | Some room \<Rightarrow> client \<notin> set (clients room))
        \<longrightarrow> unregisterClient client now mid h = Inr h)"
proof (intro conjI impI)
  assume "case tenants h (Client.TenantID (store h client)) of
            None \<Rightarrow> True | Some room \<Rightarrow> client \<notin> set (clients room)"
  then show "unregisterClient client now mid h = Inr h"
    by (simp add: unregisterClient_def split: option.splits)
next
  assume a: "unregisterClient client now mid h = Inr h'"
  show "unregisterClient client now2 mid2 h' = Inr h'"
  proof (cases "tenants h (Client.TenantID (store h client))")
    case None
    with a have "h' = h" by (simp add: unregisterClient_def)
    with None show ?thesis by (simp add: unregister_absent)
  next
    case (Some room)
    show ?thesis
    proof (cases "client \<in> set (clients room)")
      case False
      with a Some have "h' = h" by (simp add: unregisterClient_def)
      with Some False show ?thesis by (simp add: unregister_not_member)
    next
      case True
      with a Some show ?thesis
        by (auto simp: unregisterClient_def Let_def chan_close_def chan_send_def
                 split: if_splits sum.splits)
    qed
  qed
qed

theorem unregister_idempotent_witness:
  "unregisterClient 1 20 ''m2'' ex_joined = Inr ex_left
   \<and> unregisterClient 1 30 ''m3'' ex_left = Inr ex_left
   \<and> tenants ex_left 3 = None
   \<and> unregisterClient 1 20 ''m2'' ex_left = Inr ex_left"
proof -
  have first: "unregisterClient 1 20 ''m2'' ex_joined = Inr ex_left"
    by (simp add: unregisterClient_def ex_joined_def ex_left_def ex_room_def ex_client_def
                  make_chan_def chan_close_def chan_send_def Let_def)
  have absent: "tenants ex_left 3 = None"
    by (simp add: ex_left_def)
  have tenant: "Client.TenantID (store ex_left 1) = 3"
    by (simp add: ex_left_def ex_client_def)
  from first unregister_idempotent [of 1 20 "''m2''" ex_joined ex_left 30 "''m3''"]
  have second: "unregisterClient 1 30 ''m3'' ex_left = Inr ex_left"
    by blast
  from absent tenant unregister_idempotent [of 1 20 "''m2''" ex_left ex_left 20 "''m2''"]
  have third: "unregisterClient 1 20 ''m2'' ex_left = Inr ex_left"
    by simp
  from first second absent third show ?thesis by blast
qed

subsection \<open>The read pump\<close>

text \<open>
  Claim C2. For every inbound frame that the read pump deserializes, the message it then
  routes, to the hub's broadcast channel or as a reply to the client itself, carries the
  user and tenant of the connection, whatever the frame said, and a timestamp and a
  message id that were generated while the frame was handled.
\<close>

theorem anti_spoofing:
  assumes "unmarshal l (clean l messageBytes) = Some incoming"
  shows "\<exists>m. (route l c fr messageBytes = HubBroadcast m
               \<or> route l c fr messageBytes = SendOrClose m)
           \<and> Message.UserID m = Client.UserID c
           \<and> Message.TenantID m = Client.TenantID c
           \<and> Timestamp m =
               (if Type incoming = MessageTypePing \<or> Type incoming = MessageTypeTyping
                then handlerTime fr else readTime fr)
           \<and> MessageID m = (if Type incoming = MessageTypePing then handlerID fr else readID fr)"
  using assms
  by (auto simp: route_def handleMessage_def handlePing_def handleTyping_def stamp_def)

theorem anti_spoofing_witness:
  "unmarshal ex_lib (clean ex_lib ''task_update'') =
     Some \<lparr>Type = ''task_update'', Data = NilV, Message.UserID = 99, Message.TenantID = 98,
           Timestamp = 0, MessageID = ''forged'', Meta = NilV\<rparr>
   \<and> route ex_lib ex_client ex_fresh ''task_update'' =
       HubBroadcast \<lparr>Type = ''task_update'', Data = NilV, Message.UserID = 7,
                     Message.TenantID = 3, Timestamp = 100, MessageID = ''r1'', Meta = NilV\<rparr>"
proof -
  have parsed: "unmarshal ex_lib (clean ex_lib ''task_update'') =
     Some \<lparr>Type = ''task_update'', Data = NilV, Message.UserID = 99, Message.TenantID = 98,
           Timestamp = 0, MessageID = ''forged'', Meta = NilV\<rparr>"
    by (simp add: ex_lib_def clean_def newline_def space_def)
  have shape: "route ex_lib ex_client ex_fresh ''task_update'' =
       HubBroadcast (stamp ex_client ex_fresh
                       \<lparr>Type = ''task_update'', Data = NilV, Message.UserID = 99,
                        Message.TenantID = 98, Timestamp = 0, MessageID = ''forged'',
                        Meta = NilV\<rparr>)"
    using parsed
    by (simp add: route_def handleMessage_def MessageTypePing_def MessageTypeTyping_def
                  stamp_def)
  from anti_spoofing [OF parsed, of ex_client ex_fresh]
  obtain m where m: "route ex_lib ex_client ex_fresh ''task_update'' = HubBroadcast m
                      \<or> route ex_lib ex_client ex_fresh ''task_update'' = SendOrClose m"
    and ids: "Message.UserID m = Client.UserID ex_client"
             "Message.TenantID m = Client.TenantID ex_client"
    by blast
  from m shape ids parsed show ?thesis
    by (simp add: stamp_def ex_client_def ex_fresh_def)
qed

subsection \<open>The write pump\<close>

lemma queued_eq_Nil: "queued ms = [] \<longleftrightarrow> ms = []"
  by (cases ms) (simp_all add: newline_def)

text \<open>
  Claim C10, as amended. Each receive of the write pump that finds a message emits exactly
  one frame and empties the queue: the frame holds the message received followed by every
  message queued behind it at that moment, each preceded by a newline. The frame is a
  single message exactly when nothing else was queued.
\<close>

theorem writePump_one_frame_per_receive:
  assumes "buf ch = message # rest"
  shows "writePump_recv IoOk ch = Inr ([TextMessage (message @ queued rest)], ch\<lparr>buf := []\<rparr>, True)
         \<and> (message @ queued rest = message \<longleftrightarrow> rest = [])"
  using assms by (simp add: writePump_recv_def queued_eq_Nil)

theorem writePump_one_frame_per_receive_witness:
  "writePump_recv IoOk \<lparr>buf = [''pong:r2''], cap = 256, closed = False\<rparr> =
     Inr ([TextMessage ''pong:r2''], \<lparr>buf = [], cap = 256, closed = False\<rparr>, True)"
  using writePump_one_frame_per_receive
          [of "\<lparr>buf = [''pong:r2''], cap = 256, closed = False\<rparr>" "''pong:r2''" "[]"]
  by simp

text \<open>
  As stated, with each queued message in a frame of its own, C10 fails: two queued messages
  leave in one frame.
\<close>

theorem writePump_coalesces_counterexample:
  "writePump_recv IoOk \<lparr>buf = [''user_joined:m1'', ''pong:r2''], cap = 256, closed = False\<rparr> =
     Inr ([TextMessage (''user_joined:m1'' @ [CHR 0x0A] @ ''pong:r2'')],
          \<lparr>buf = [], cap = 256, closed = False\<rparr>, True)"
  by (simp add: writePump_recv_def newline_def)

subsection \<open>Malformed frames and replies on a full queue\<close>

text \<open>
  Claim C9, as amended. When a frame fails to deserialize and the sender's outbound queue
  is open and has a free slot, exactly one Error message is enqueued, to the sender alone:
  no room and no other client changes, and the read pump goes on with the frames that
  follow. When the queue is full, no Error message is enqueued and the queue is closed.
\<close>

theorem malformed_frame_reply:
  assumes "unmarshal l (clean l messageBytes) = None"
      and "length messageBytes \<le> maxMessageSize"
      and "marshal l \<lparr>Type = MessageTypeError,
                      Data = MapV [(''error'', StrV ''Invalid message format'')],
                      Message.UserID = Client.UserID (store h client),
                      Message.TenantID = Client.TenantID (store h client),
                      Timestamp = handlerTime fr, MessageID = handlerID fr, Meta = NilV\<rparr>
             = Some errorBytes"
      and "\<not> closed (send (store h client))"
  shows "readPump_frame l client fr messageBytes h =
           Inr (h\<lparr>store := (store h)(client := (store h client)
                   \<lparr>send := (if length (buf (send (store h client))) < cap (send (store h client))
                             then (send (store h client))
                                    \<lparr>buf := buf (send (store h client)) @ [errorBytes]\<rparr>
                             else (send (store h client))\<lparr>closed := True\<rparr>)\<rparr>)\<rparr>)
         \<and> readPump l client ((messageBytes, fr) # frames) now mid h =
             readPump l client frames now mid
               (h\<lparr>store := (store h)(client := (store h client)
                   \<lparr>send := (if length (buf (send (store h client))) < cap (send (store h client))
                             then (send (store h client))
                                    \<lparr>buf := buf (send (store h client)) @ [errorBytes]\<rparr>
                             else (send (store h client))\<lparr>closed := True\<rparr>)\<rparr>)\<rparr>)"
proof -
  have one: "readPump_frame l client fr messageBytes h =
           Inr (h\<lparr>store := (store h)(client := (store h client)
                   \<lparr>send := (if length (buf (send (store h client))) < cap (send (store h client))
                             then (send (store h client))
                                    \<lparr>buf := buf (send (store h client)) @ [errorBytes]\<rparr>
                             else (send (store h client))\<lparr>closed := True\<rparr>)\<rparr>)\<rparr>)"
    using assms(1) assms(3) assms(4)
    by (simp add: readPump_frame_def route_def sendError_def perform_def chan_try_send_def
                  chan_close_def Let_def)
  from assms(2) have "\<not> maxMessageSize < length messageBytes" by simp
  then have "readPump l client ((messageBytes, fr) # frames) now mid h =
      (case readPump_frame l client fr messageBytes h of
         Inl e \<Rightarrow> Inl e
       | Inr h' \<Rightarrow> readPump l client frames now mid h')"
    by simp
  with one show ?thesis by (simp only: sum.case)
qed

theorem malformed_frame_reply_witness:
  "readPump_frame ex_lib 1 ex_fresh ''bad'' ex_joined =
     Inr (ex_joined\<lparr>store := (\<lambda>a. ex_client)
            (1 := ex_client\<lparr>send := \<lparr>buf = [''error:r2''], cap = 256, closed = False\<rparr>\<rparr>)\<rparr>)
   \<and> readPump ex_lib 1 [(''bad'', ex_fresh)] 20 ''m2'' ex_joined =
       unregisterClient 1 20 ''m2''
         (ex_joined\<lparr>store := (\<lambda>a. ex_client)
            (1 := ex_client\<lparr>send := \<lparr>buf = [''error:r2''], cap = 256, closed = False\<rparr>\<rparr>)\<rparr>)"
  using malformed_frame_reply [of ex_lib "''bad''" ex_joined 1 ex_fresh "''error:r2''" "[]" 20 "''m2''"]
  by (simp add: ex_lib_def clean_def newline_def space_def maxMessageSize_def ex_joined_def
        ex_client_def make_chan_def ex_fresh_def MessageTypeError_def)

text \<open>
  As stated, for every malformed frame, C9 fails: when the sender's queue holds 256 frames,
  no Error message is enqueued and the queue is closed.
\<close>

theorem malformed_frame_full_queue_counterexample:
  "unmarshal ex_lib (clean ex_lib ''bad'') = None
   \<and> readPump_frame ex_lib 1 ex_fresh ''bad'' (ex_filled 256) = Inr ex_closed
   \<and> buf (send (store ex_closed 1)) = buf (send (store (ex_filled 256) 1))
   \<and> closed (send (store ex_closed 1))"
  by (simp add: ex_lib_def clean_def newline_def space_def readPump_frame_def route_def
       sendError_def perform_def chan_try_send_def chan_close_def Let_def ex_filled_def ex_closed_def
       ex_client_def)

text \<open>
  A reply to the client itself that finds the client's queue full closes the queue and
  changes nothing else: the rooms of the hub stay as they are.
\<close>

lemma reply_on_full_queue:
  assumes "marshal l m = Some b"
      and "\<not> closed (send (store h client))"
      and "cap (send (store h client)) \<le> length (buf (send (store h client)))"
  shows "perform l client (SendOrClose m) h =
           Inr (h\<lparr>store := (store h)(client := (store h client)
                  \<lparr>send := (send (store h client))\<lparr>closed := True\<rparr>\<rparr>)\<rparr>)"
  using assms
  by (simp add: perform_def chan_try_send_def chan_close_def Let_def)

text \<open>
  Claim C4 says that a connection whose queue a producer finds full has its queue closed
  and is removed from its room. For the reply to a Ping the queue is closed and the client
  stays a member: the next unregister of the client, and the next message its room fans
  out, then panic.
\<close>

theorem ping_on_full_queue_keeps_member:
  "readPump_frame ex_lib 1 ex_fresh ''ping'' (ex_filled 256) = Inr ex_closed
   \<and> closed (send (store ex_closed 1))
   \<and> tenants ex_closed 3 = Some ex_room
   \<and> clients ex_room = [1]
   \<and> unregisterClient 1 20 ''m2'' ex_closed = Inl CloseOfClosedChannel
   \<and> run_step ex_lib 3 ex_closed = Inl SendOnClosedChannel"
  by (simp add: ex_lib_def clean_def newline_def space_def readPump_frame_def route_def
       handleMessage_def handlePing_def MessageTypePing_def stamp_def
       perform_def chan_try_send_def chan_close_def Let_def ex_filled_def ex_closed_def
       ex_client_def ex_room_def unregisterClient_def run_step_def joinMessage_def send_or_drop_def)

subsection \<open>Targeted delivery\<close>

lemma send_or_drop_open:
  "\<not> closed ch \<Longrightarrow>
   send_or_drop b ch =
     Inr (if length (buf ch) < cap ch then ch\<lparr>buf := buf ch @ [b]\<rparr> else ch\<lparr>closed := True\<rparr>,
          length (buf ch) < cap ch)"
  by (simp add: send_or_drop_def chan_try_send_def chan_close_def)

lemma send_user_result:
  assumes "distinct cs"
      and "\<forall>client \<in> set cs. Client.UserID (st client) = userID \<longrightarrow> \<not> closed (send (st client))"
  shows "\<exists>st'. send_user userID b cs st =
                 Inr (st', filter (\<lambda>client. \<not> (Client.UserID (st client) = userID
                                    \<and> cap (send (st client)) \<le> length (buf (send (st client))))) cs)
          \<and> (\<forall>client. st' client =
                (if client \<in> set cs \<and> Client.UserID (st client) = userID
                 then (st client)\<lparr>send :=
                        (if length (buf (send (st client))) < cap (send (st client))
                         then (send (st client))\<lparr>buf := buf (send (st client)) @ [b]\<rparr>
                         else (send (st client))\<lparr>closed := True\<rparr>)\<rparr>
                 else st client))"
  using assms
proof (induction cs arbitrary: st)
  case Nil
  then show ?case by simp
next
  case (Cons a cs)
  show ?case
  proof (cases "Client.UserID (st a) = userID")
    case False
    from Cons.prems have "distinct cs"
      and "\<forall>client \<in> set cs. Client.UserID (st client) = userID \<longrightarrow> \<not> closed (send (st client))"
      by simp_all
    from Cons.IH [OF this] obtain st' where
      r: "send_user userID b cs st =
            Inr (st', filter (\<lambda>client. \<not> (Client.UserID (st client) = userID
                                    \<and> cap (send (st client)) \<le> length (buf (send (st client))))) cs)"
      and p: "\<forall>client. st' client =
                (if client \<in> set cs \<and> Client.UserID (st client) = userID
                 then (st client)\<lparr>send :=
                        (if length (buf (send (st client))) < cap (send (st client))
                         then (send (st client))\<lparr>buf := buf (send (st client)) @ [b]\<rparr>
                         else (send (st client))\<lparr>closed := True\<rparr>)\<rparr>
                 else st client)"
      by blast
    from False r p show ?thesis by auto
  next
    case True
    let ?ch = "if length (buf (send (st a))) < cap (send (st a))
               then (send (st a))\<lparr>buf := buf (send (st a)) @ [b]\<rparr>
               else (send (st a))\<lparr>closed := True\<rparr>"
    let ?st = "st(a := (st a)\<lparr>send := ?ch\<rparr>)"
    from Cons.prems True have open_a: "\<not> closed (send (st a))" by simp
    from Cons.prems have notin: "a \<notin> set cs" and d: "distinct cs" by simp_all
    from notin have same: "\<And>client. client \<in> set cs \<Longrightarrow> ?st client = st client" by auto
    from Cons.prems same
    have "\<forall>client \<in> set cs. Client.UserID (?st client) = userID \<longrightarrow> \<not> closed (send (?st client))"
      by (metis list.set_intros(2))
    from Cons.IH [OF d this] obtain st' where
      r: "send_user userID b cs ?st =
            Inr (st', filter (\<lambda>client. \<not> (Client.UserID (?st client) = userID
                                    \<and> cap (send (?st client)) \<le> length (buf (send (?st client))))) cs)"
      and p: "\<forall>client. st' client =
                (if client \<in> set cs \<and> Client.UserID (?st client) = userID
                 then (?st client)\<lparr>send :=
                        (if length (buf (send (?st client))) < cap (send (?st client))
                         then (send (?st client))\<lparr>buf := buf (send (?st client)) @ [b]\<rparr>
                         else (send (?st client))\<lparr>closed := True\<rparr>)\<rparr>
                 else ?st client)"
      by blast
    have f: "filter (\<lambda>client. \<not> (Client.UserID (?st client) = userID
                                    \<and> cap (send (?st client)) \<le> length (buf (send (?st client))))) cs
           = filter (\<lambda>client. \<not> (Client.UserID (st client) = userID
                                    \<and> cap (send (st client)) \<le> length (buf (send (st client))))) cs"
      by (rule filter_cong) (use same in auto)
    have res: "send_user userID b (a # cs) st =
                Inr (st', filter (\<lambda>client. \<not> (Client.UserID (st client) = userID
                                    \<and> cap (send (st client)) \<le> length (buf (send (st client))))) (a # cs))"
      using True open_a r f notin
      by (simp add: send_or_drop_open del: fun_upd_apply)
    have pt: "\<forall>client. st' client =
                (if client \<in> set (a # cs) \<and> Client.UserID (st client) = userID
                 then (st client)\<lparr>send :=
                        (if length (buf (send (st client))) < cap (send (st client))
                         then (send (st client))\<lparr>buf := buf (send (st client)) @ [b]\<rparr>
                         else (send (st client))\<lparr>closed := True\<rparr>)\<rparr>
                 else st client)"
    proof
      fix client
      show "st' client =
                (if client \<in> set (a # cs) \<and> Client.UserID (st client) = userID
                 then (st client)\<lparr>send :=
                        (if length (buf (send (st client))) < cap (send (st client))
                         then (send (st client))\<lparr>buf := buf (send (st client)) @ [b]\<rparr>
                         else (send (st client))\<lparr>closed := True\<rparr>)\<rparr>
                 else st client)"
      proof (cases "client = a")
        case True
        with p notin \<open>Client.UserID (st a) = userID\<close> show ?thesis by simp
      next
        case False
        with p show ?thesis by simp
      qed
    qed
    from res pt show ?thesis by blast
  qed
qed

lemma BroadcastToUser_no_room:
  "tenants h tenantID = None \<Longrightarrow> BroadcastToUser l tenantID userID ty data now mid h = Inr h"
  by (simp add: BroadcastToUser_def)

text \<open>
  Claim C5, as amended. In every hub state where the tenant has a room, the message
  marshals and no member of the room that belongs to the user has a closed queue,
  BroadcastToUser appends the frame to the queue of every member of that room that
  belongs to the user and has a free slot; a member of the user whose queue is full gets
  nothing: its queue is closed and it leaves the room. Every other connection, of another
  user or of another tenant, is left as it was.
\<close>

theorem targeted_delivery:
  assumes "tenants h tenantID = Some room"
      and "distinct (clients room)"
      and "tenant_inv h"
      and "marshal l \<lparr>Type = ty, Data = data, Message.UserID = userID,
                      Message.TenantID = tenantID, Timestamp = now, MessageID = mid,
                      Meta = NilV\<rparr> = Some messageBytes"
      and "\<forall>client \<in> set (clients room).
             Client.UserID (store h client) = userID \<longrightarrow> \<not> closed (send (store h client))"
  shows "\<exists>h'. BroadcastToUser l tenantID userID ty data now mid h = Inr h'
          \<and> tenants h' =
              (tenants h)(tenantID \<mapsto> room\<lparr>clients :=
                 filter (\<lambda>client. \<not> (Client.UserID (store h client) = userID
                           \<and> cap (send (store h client)) \<le> length (buf (send (store h client)))))
                        (clients room)\<rparr>)
          \<and> (\<forall>client. client \<in> set (clients room) \<and> Client.UserID (store h client) = userID \<longrightarrow>
                store h' client =
                  (store h client)\<lparr>send :=
                     (if length (buf (send (store h client))) < cap (send (store h client))
                      then (send (store h client))
                             \<lparr>buf := buf (send (store h client)) @ [messageBytes]\<rparr>
                      else (send (store h client))\<lparr>closed := True\<rparr>)\<rparr>)
          \<and> (\<forall>client. Client.UserID (store h client) \<noteq> userID
                         \<or> Client.TenantID (store h client) \<noteq> tenantID
                         \<or> client \<notin> set (clients room) \<longrightarrow>
                store h' client = store h client)"
proof -
  from send_user_result [OF assms(2) assms(5), of messageBytes]
  obtain st' where
    r: "send_user userID messageBytes (clients room) (store h) =
          Inr (st', filter (\<lambda>client. \<not> (Client.UserID (store h client) = userID
                           \<and> cap (send (store h client)) \<le> length (buf (send (store h client)))))
                        (clients room))"
    and p: "\<forall>client. st' client =
                (if client \<in> set (clients room) \<and> Client.UserID (store h client) = userID
                 then (store h client)\<lparr>send :=
                        (if length (buf (send (store h client))) < cap (send (store h client))
                         then (send (store h client))
                                \<lparr>buf := buf (send (store h client)) @ [messageBytes]\<rparr>
                         else (send (store h client))\<lparr>closed := True\<rparr>)\<rparr>
                 else store h client)"
    by blast
  from assms(1) assms(3)
  have members: "\<forall>client \<in> set (clients room). Client.TenantID (store h client) = tenantID"
    unfolding tenant_inv_def by blast
  let ?h' = "h\<lparr>tenants := (tenants h)(tenantID \<mapsto> room\<lparr>clients :=
                 filter (\<lambda>client. \<not> (Client.UserID (store h client) = userID
                           \<and> cap (send (store h client)) \<le> length (buf (send (store h client)))))
                        (clients room)\<rparr>),
               store := st'\<rparr>"
  have "BroadcastToUser l tenantID userID ty data now mid h = Inr ?h'"
    using assms(1) assms(4) r by (simp add: BroadcastToUser_def userMessage_def)
  moreover have "\<forall>client. client \<in> set (clients room) \<and> Client.UserID (store h client) = userID \<longrightarrow>
                store ?h' client =
                  (store h client)\<lparr>send :=
                     (if length (buf (send (store h client))) < cap (send (store h client))
                      then (send (store h client))
                             \<lparr>buf := buf (send (store h client)) @ [messageBytes]\<rparr>
                      else (send (store h client))\<lparr>closed := True\<rparr>)\<rparr>"
    using p by simp
  moreover have "\<forall>client. Client.UserID (store h client) \<noteq> userID
                         \<or> Client.TenantID (store h client) \<noteq> tenantID
                         \<or> client \<notin> set (clients room) \<longrightarrow>
                store ?h' client = store h client"
    using p members by auto
  ultimately show ?thesis by simp
qed

lemma ex_filled_inv: "tenant_inv (ex_filled k)"
  by (simp add: tenant_inv_def ex_filled_def ex_room_def ex_client_def joinMessage_def)

theorem targeted_delivery_witness:
  "tenants (ex_filled 2) 3 = Some ex_room
   \<and> clients ex_room = [1]
   \<and> BroadcastToUser ex_lib 3 7 ''notification'' NilV 11 ''n1'' (ex_filled 2) = Inr (ex_filled 3)
   \<and> store (ex_filled 3) 2 = store (ex_filled 2) 2"
proof -
  have room: "tenants (ex_filled 2) 3 = Some ex_room"
    by (simp add: ex_filled_def)
  have d: "distinct (clients ex_room)" and cs: "clients ex_room = [1]"
    by (simp_all add: ex_room_def)
  have m: "marshal ex_lib \<lparr>Type = ''notification'', Data = NilV, Message.UserID = 7,
                      Message.TenantID = 3, Timestamp = 11, MessageID = ''n1'',
                      Meta = NilV\<rparr> = Some ''notification:n1''"
    by (simp add: ex_lib_def)
  have op: "\<forall>client \<in> set (clients ex_room).
             Client.UserID (store (ex_filled 2) client) = 7 \<longrightarrow>
             \<not> closed (send (store (ex_filled 2) client))"
    by (simp add: ex_room_def ex_filled_def)
  from targeted_delivery [OF room d ex_filled_inv m op]
  obtain h' where
    r: "BroadcastToUser ex_lib 3 7 ''notification'' NilV 11 ''n1'' (ex_filled 2) = Inr h'"
    and o: "\<forall>client. Client.UserID (store (ex_filled 2) client) \<noteq> 7
                         \<or> Client.TenantID (store (ex_filled 2) client) \<noteq> 3
                         \<or> client \<notin> set (clients ex_room) \<longrightarrow>
                store h' client = store (ex_filled 2) client"
    by blast
  have e: "BroadcastToUser ex_lib 3 7 ''notification'' NilV 11 ''n1'' (ex_filled 2) = Inr (ex_filled 3)"
    by (simp add: BroadcastToUser_def ex_filled_def ex_room_def userMessage_def ex_lib_def
                  ex_client_def send_or_drop_def chan_try_send_def numeral_3_eq_3 numeral_2_eq_2)
  from r e have "h' = ex_filled 3" by simp
  with o cs have "store (ex_filled 3) 2 = store (ex_filled 2) 2" by simp
  with room cs e show ?thesis by simp
qed

text \<open>
  As stated, for every hub state, C5 fails: a connected client of the user whose queue
  holds 256 frames gets no frame; it is closed and removed.
\<close>

theorem targeted_delivery_full_queue_counterexample:
  "tenants (ex_filled 256) 3 = Some ex_room
   \<and> clients ex_room = [1]
   \<and> Client.UserID (store (ex_filled 256) 1) = 7
   \<and> BroadcastToUser ex_lib 3 7 ''notification'' NilV 11 ''n1'' (ex_filled 256) = Inr ex_dropped
   \<and> buf (send (store ex_dropped 1)) = buf (send (store (ex_filled 256) 1))"
  by (simp add: BroadcastToUser_def ex_filled_def ex_dropped_def ex_room_def userMessage_def
                ex_lib_def ex_client_def send_or_drop_def chan_try_send_def chan_close_def)

subsection \<open>Rooms without members\<close>

lemma exec_append:
  "exec l (xs @ ys) h = (case exec l xs h of Inl e \<Rightarrow> Inl e | Inr h' \<Rightarrow> exec l ys h')"
  by (induction xs arbitrary: h) (auto split: sum.splits)

lemma ex_filled_0: "ex_filled 0 = ex_joined"
  by (simp add: ex_filled_def ex_joined_def ex_client_def make_chan_def fun_upd_idem)

lemma ex_filled_step:
  "k < 256 \<Longrightarrow>
   BroadcastToUser ex_lib 3 7 ''notification'' NilV 11 ''n1'' (ex_filled k) = Inr (ex_filled (Suc k))"
  by (simp add: BroadcastToUser_def ex_filled_def ex_room_def userMessage_def ex_lib_def
                ex_client_def send_or_drop_def chan_try_send_def replicate_append_same)

lemma ex_filled_exec:
  "k + n \<le> 256 \<Longrightarrow>
   exec ex_lib (replicate n (ToUser 3 7 ''notification'' NilV 11 ''n1'')) (ex_filled k) =
     Inr (ex_filled (k + n))"
proof (induction n arbitrary: k)
  case 0
  then show ?case by simp
next
  case (Suc n)
  from Suc.prems have "k < 256" and "Suc k + n \<le> 256" by simp_all
  with Suc.IH [of "Suc k"] show ?case by (simp add: ex_filled_step)
qed

lemma register_no_empty_room:
  "no_empty_room h \<Longrightarrow> registerClient client now mid h = Inr h' \<Longrightarrow> no_empty_room h'"
  by (auto simp: no_empty_room_def registerClient_def Let_def add_client_def chan_send_def
           split: option.splits if_splits)

lemma unregister_no_empty_room:
  "no_empty_room h \<Longrightarrow> unregisterClient client now mid h = Inr h' \<Longrightarrow> no_empty_room h'"
  by (auto simp: no_empty_room_def unregisterClient_def Let_def chan_send_def chan_close_def
           split: option.splits if_splits sum.splits)

text \<open>
  Claim C3 says that after any sequence of hub operations a tenant has a room in the map
  exactly when the room has a member. Registrations and unregistrations keep every room of
  the map non-empty (the two lemmas above), but a client dropped for its full queue leaves
  its room in the map: a new hub, one registration, 257 targeted sends that no write pump
  receives, and the unregistration of the dropped client end with the room of tenant 3 in
  the map and no member in it.
\<close>

theorem dropped_client_leaves_empty_room:
  "exec ex_lib (Register 1 10 ''m1''
                # replicate 257 (ToUser 3 7 ''notification'' NilV 11 ''n1'')
                @ [Unregister 1 20 ''m2'']) ex_new = Inr ex_dropped
   \<and> tenants ex_dropped 3 = Some (ex_room\<lparr>clients := []\<rparr>)
   \<and> clients (ex_room\<lparr>clients := []\<rparr>) = []"
proof -
  have reg: "registerClient 1 10 ''m1'' ex_new = Inr (ex_filled 0)"
    unfolding ex_filled_0
    by (simp add: registerClient_def ex_new_def NewHub_def ex_client_def ex_joined_def
                  ex_room_def make_chan_def chan_send_def add_client_def Let_def)
  have fill: "exec ex_lib (replicate 256 (ToUser 3 7 ''notification'' NilV 11 ''n1'')) (ex_filled 0)
              = Inr (ex_filled 256)"
    using ex_filled_exec [of 0 256] by simp
  have drop: "BroadcastToUser ex_lib 3 7 ''notification'' NilV 11 ''n1'' (ex_filled 256) = Inr ex_dropped"
    by (simp add: BroadcastToUser_def ex_filled_def ex_dropped_def ex_room_def userMessage_def
                ex_lib_def ex_client_def send_or_drop_def chan_try_send_def chan_close_def)
  have unreg: "unregisterClient 1 20 ''m2'' ex_dropped = Inr ex_dropped"
    by (simp add: unregisterClient_def ex_dropped_def ex_client_def)
  have split: "replicate 257 (ToUser 3 7 ''notification'' NilV 11 ''n1'')
               = replicate 256 (ToUser 3 7 ''notification'' NilV 11 ''n1'')
                 @ [ToUser 3 7 ''notification'' NilV 11 ''n1'']"
  proof -
    have "(257::nat) = Suc 256" by simp
    then show ?thesis
      by (simp only: replicate_Suc replicate_append_same)
  qed
  have run: "exec ex_lib (Register 1 10 ''m1''
                # replicate 257 (ToUser 3 7 ''notification'' NilV 11 ''n1'')
                @ [Unregister 1 20 ''m2'']) ex_new = Inr ex_dropped"
    unfolding split
    by (simp only: exec.simps step.simps reg exec_append fill drop unreg sum.case append.simps)
  moreover have "tenants ex_dropped 3 = Some (ex_room\<lparr>clients := []\<rparr>)"
    by (simp add: ex_dropped_def)
  ultimately show ?thesis by simp
qed

subsection \<open>Fan-out in a room\<close>

lemma send_or_drop_cases:
  assumes "send_or_drop b ch = Inr (ch', keep)"
  shows "\<not> closed ch
         \<and> (keep \<longrightarrow> ch' = ch\<lparr>buf := buf ch @ [b]\<rparr>)
         \<and> (\<not> keep \<longrightarrow> ch' = ch\<lparr>closed := True\<rparr>)"
  using assms
  by (auto simp: send_or_drop_def chan_try_send_def chan_close_def split: if_splits)

lemma fanout_frame:
  assumes "fanout b cs st = Inr (st', ms)"
  shows "set ms \<subseteq> set cs
         \<and> (\<forall>client. client \<notin> set cs \<longrightarrow> st' client = st client)
         \<and> (\<forall>client. Client.TenantID (st' client) = Client.TenantID (st client)
                      \<and> Client.UserID (st' client) = Client.UserID (st client))"
  using assms
proof (induction cs arbitrary: st st' ms)
  case Nil
  then show ?case by simp
next
  case (Cons a cs)
  from Cons.prems obtain ch keep st1 rest where
    s: "send_or_drop b (send (st a)) = Inr (ch, keep)"
    and f: "fanout b cs (st(a := (st a)\<lparr>send := ch\<rparr>)) = Inr (st1, rest)"
    and e: "st' = st1" "ms = (if keep then a # rest else rest)"
    by (auto split: sum.splits prod.splits)
  from Cons.IH [OF f] e show ?case
    by (auto split: if_splits)
qed

lemma fanout_members:
  assumes "fanout b cs st = Inr (st', ms)" and "distinct cs"
  shows "distinct ms
         \<and> (\<forall>client \<in> set ms. buf (send (st' client)) = buf (send (st client)) @ [b])"
  using assms
proof (induction cs arbitrary: st st' ms)
  case Nil
  then show ?case by simp
next
  case (Cons a cs)
  from Cons.prems obtain ch keep rest where
    s: "send_or_drop b (send (st a)) = Inr (ch, keep)"
    and f: "fanout b cs (st(a := (st a)\<lparr>send := ch\<rparr>)) = Inr (st', rest)"
    and e: "ms = (if keep then a # rest else rest)"
    by (auto split: sum.splits prod.splits)
  from Cons.prems have d: "distinct cs" and notin: "a \<notin> set cs" by simp_all
  from Cons.IH [OF f d] have dr: "distinct rest"
    and ih: "\<forall>client \<in> set rest.
               buf (send (st' client)) = buf (send ((st(a := (st a)\<lparr>send := ch\<rparr>)) client)) @ [b]"
    by simp_all
  from fanout_frame [OF f] have sub: "set rest \<subseteq> set cs"
    and out: "st' a = (st(a := (st a)\<lparr>send := ch\<rparr>)) a"
    using notin by simp_all
  from sub notin have nr: "a \<notin> set rest" by blast
  have others: "\<forall>client \<in> set rest. buf (send (st' client)) = buf (send (st client)) @ [b]"
    using ih nr by auto
  show ?case
  proof (cases keep)
    case True
    with send_or_drop_cases [OF s] have "ch = (send (st a))\<lparr>buf := buf (send (st a)) @ [b]\<rparr>"
      by simp
    with out have "buf (send (st' a)) = buf (send (st a)) @ [b]" by simp
    with True e dr nr others show ?thesis by simp
  next
    case False
    with e dr others show ?thesis by simp
  qed
qed

text \<open>
  When every member's queue is open, the fan-out of a frame appends it to the queue of
  each member that has a free slot, and closes and removes each member whose queue is
  full.
\<close>

lemma fanout_result:
  assumes "distinct cs"
      and "\<forall>client \<in> set cs. \<not> closed (send (st client))"
  shows "\<exists>st'. fanout b cs st =
                 Inr (st', filter (\<lambda>client. length (buf (send (st client))) < cap (send (st client))) cs)
          \<and> (\<forall>client. st' client =
                (if client \<in> set cs
                 then (st client)\<lparr>send :=
                        (if length (buf (send (st client))) < cap (send (st client))
                         then (send (st client))\<lparr>buf := buf (send (st client)) @ [b]\<rparr>
                         else (send (st client))\<lparr>closed := True\<rparr>)\<rparr>
                 else st client))"
  using assms
proof (induction cs arbitrary: st)
  case Nil
  then show ?case by simp
next
  case (Cons a cs)
  let ?ch = "if length (buf (send (st a))) < cap (send (st a))
             then (send (st a))\<lparr>buf := buf (send (st a)) @ [b]\<rparr>
             else (send (st a))\<lparr>closed := True\<rparr>"
  let ?st = "st(a := (st a)\<lparr>send := ?ch\<rparr>)"
  from Cons.prems have open_a: "\<not> closed (send (st a))" by simp
  from Cons.prems have notin: "a \<notin> set cs" and d: "distinct cs" by simp_all
  from notin have same: "\<And>client. client \<in> set cs \<Longrightarrow> ?st client = st client" by auto
  from Cons.prems same
  have "\<forall>client \<in> set cs. \<not> closed (send (?st client))"
    by (metis list.set_intros(2))
  from Cons.IH [OF d this] obtain st' where
    r: "fanout b cs ?st =
          Inr (st', filter (\<lambda>client. length (buf (send (?st client))) < cap (send (?st client))) cs)"
    and p: "\<forall>client. st' client =
              (if client \<in> set cs
               then (?st client)\<lparr>send :=
                      (if length (buf (send (?st client))) < cap (send (?st client))
                       then (send (?st client))\<lparr>buf := buf (send (?st client)) @ [b]\<rparr>
                       else (send (?st client))\<lparr>closed := True\<rparr>)\<rparr>
               else ?st client)"
    by blast
  have f: "filter (\<lambda>client. length (buf (send (?st client))) < cap (send (?st client))) cs
         = filter (\<lambda>client. length (buf (send (st client))) < cap (send (st client))) cs"
    by (rule filter_cong) (use same in auto)
  have res: "fanout b (a # cs) st =
              Inr (st', filter (\<lambda>client. length (buf (send (st client))) < cap (send (st client)))
                          (a # cs))"
    using open_a r f
    by (simp add: send_or_drop_open del: fun_upd_apply)
  have pt: "\<forall>client. st' client =
              (if client \<in> set (a # cs)
               then (st client)\<lparr>send :=
                      (if length (buf (send (st client))) < cap (send (st client))
                       then (send (st client))\<lparr>buf := buf (send (st client)) @ [b]\<rparr>
                       else (send (st client))\<lparr>closed := True\<rparr>)\<rparr>
               else st client)"
  proof
    fix client
    show "st' client =
              (if client \<in> set (a # cs)
               then (st client)\<lparr>send :=
                      (if length (buf (send (st client))) < cap (send (st client))
                       then (send (st client))\<lparr>buf := buf (send (st client)) @ [b]\<rparr>
                       else (send (st client))\<lparr>closed := True\<rparr>)\<rparr>
               else st client)"
    proof (cases "client = a")
      case True
      with p notin show ?thesis by simp
    next
      case False
      with p show ?thesis by simp
    qed
  qed
  from res pt show ?case by blast
qed

lemma map_filter_append:
  "List.map_filter f (xs @ ys) = List.map_filter f xs @ List.map_filter f ys"
  by (simp add: List.map_filter_def)

lemma run_step_room:
  assumes "run_step l t h = Inr h'" and "tenants h t = Some room" and "distinct (clients room)"
  shows "\<exists>m queue room'. buf (broadcast room) = m # queue
           \<and> tenants h' t = Some room'
           \<and> buf (broadcast room') = queue
           \<and> set (clients room') \<subseteq> set (clients room)
           \<and> distinct (clients room')
           \<and> (\<forall>client \<in> set (clients room').
                 buf (send (store h' client)) =
                   buf (send (store h client)) @ List.map_filter (marshal l) [m])"
proof -
  from assms(1) assms(2) obtain m queue where q: "buf (broadcast room) = m # queue"
    by (cases "buf (broadcast room)") (auto simp: run_step_def)
  show ?thesis
  proof (cases "marshal l m")
    case None
    with assms q show ?thesis
      by (auto simp: run_step_def Let_def List.map_filter_simps)
  next
    case (Some b)
    with assms(1) assms(2) q obtain st ms where
      f: "fanout b (clients room) (store h) = Inr (st, ms)"
      and h': "h' = h\<lparr>tenants := (tenants h)(t \<mapsto> room\<lparr>broadcast := (broadcast room)\<lparr>buf := queue\<rparr>,
                                                       clients := ms\<rparr>),
                      store := st\<rparr>"
      by (auto simp: run_step_def Let_def split: sum.splits)
    from fanout_frame [OF f] fanout_members [OF f assms(3)] h' q Some show ?thesis
      by (simp add: List.map_filter_simps)
  qed
qed

lemma run_fifo:
  assumes "run l t n h = Inr h'" and "tenants h t = Some room"
      and "n \<le> length (buf (broadcast room))" and "distinct (clients room)"
  shows "\<exists>room'. tenants h' t = Some room'
           \<and> buf (broadcast room') = drop n (buf (broadcast room))
           \<and> set (clients room') \<subseteq> set (clients room)
           \<and> (\<forall>client \<in> set (clients room').
                 buf (send (store h' client)) =
                   buf (send (store h client))
                   @ List.map_filter (marshal l) (take n (buf (broadcast room))))"
  using assms
proof (induction n arbitrary: h room)
  case 0
  then show ?case by (simp add: List.map_filter_simps)
next
  case (Suc n)
  from Suc.prems(1) obtain h1 where s: "run_step l t h = Inr h1" and r: "run l t n h1 = Inr h'"
    by (auto split: sum.splits)
  from run_step_room [OF s Suc.prems(2) Suc.prems(4)] obtain m queue room1 where
    q: "buf (broadcast room) = m # queue"
    and t1: "tenants h1 t = Some room1"
    and q1: "buf (broadcast room1) = queue"
    and sub1: "set (clients room1) \<subseteq> set (clients room)"
    and d1: "distinct (clients room1)"
    and b1: "\<forall>client \<in> set (clients room1).
                 buf (send (store h1 client)) =
                   buf (send (store h client)) @ List.map_filter (marshal l) [m]"
    by blast
  from Suc.prems(3) q q1 have n1: "n \<le> length (buf (broadcast room1))" by simp
  from Suc.IH [OF r t1 n1 d1] obtain room' where
    t': "tenants h' t = Some room'"
    and q': "buf (broadcast room') = drop n (buf (broadcast room1))"
    and sub': "set (clients room') \<subseteq> set (clients room1)"
    and b': "\<forall>client \<in> set (clients room').
                 buf (send (store h' client)) =
                   buf (send (store h1 client))
                   @ List.map_filter (marshal l) (take n (buf (broadcast room1)))"
    by blast
  have "\<forall>client \<in> set (clients room').
                 buf (send (store h' client)) =
                   buf (send (store h client))
                   @ List.map_filter (marshal l) (take (Suc n) (buf (broadcast room)))"
  proof
    fix client assume c: "client \<in> set (clients room')"
    with sub' have "client \<in> set (clients room1)" by blast
    with b1 have "buf (send (store h1 client)) =
                   buf (send (store h client)) @ List.map_filter (marshal l) [m]" by blast
    moreover from b' c have "buf (send (store h' client)) =
                   buf (send (store h1 client))
                   @ List.map_filter (marshal l) (take n queue)" using q1 by simp
    moreover have "List.map_filter (marshal l) (take (Suc n) (m # queue))
        = List.map_filter (marshal l) [m] @ List.map_filter (marshal l) (take n queue)"
      using map_filter_append [of "marshal l" "[m]" "take n queue"] by simp
    ultimately show "buf (send (store h' client)) =
                   buf (send (store h client))
                   @ List.map_filter (marshal l) (take (Suc n) (buf (broadcast room)))"
      using q by simp
  qed
  with t' q' sub' sub1 q q1 show ?case by auto
qed

lemma queued_append: "queued (xs @ ys) = queued xs @ queued ys"
  by (induction xs) simp_all

lemma writePump_order:
  assumes "buf ch = front @ b1 # middle @ [b2]"
  shows "\<exists>u v. writePump_recv IoOk ch =
                 Inr ([TextMessage (u @ b1 @ v @ newline @ b2)], ch\<lparr>buf := []\<rparr>, True)"
proof (cases front)
  case Nil
  with assms have "writePump_recv IoOk ch =
      Inr ([TextMessage ([] @ b1 @ queued middle @ newline @ b2)], ch\<lparr>buf := []\<rparr>, True)"
    by (simp add: writePump_recv_def queued_append)
  then show ?thesis by blast
next
  case (Cons z zs)
  with assms have "writePump_recv IoOk ch =
      Inr ([TextMessage ((z @ queued zs @ newline) @ b1 @ queued middle @ newline @ b2)],
           ch\<lparr>buf := []\<rparr>, True)"
    by (simp add: writePump_recv_def queued_append)
  then show ?thesis by blast
qed

text \<open>
  Claim C6. Let two messages wait in the broadcast queue of the same room, the first
  ahead of the second, and let the room's loop handle the queue up to the second. Every
  client that is a member of the room afterwards has the frame of the first message in
  its outbound queue ahead of the frame of the second, behind what the queue held before,
  and its write pump puts the first on the wire before the second.
\<close>

theorem room_fifo:
  assumes "tenants h t = Some room"
      and "distinct (clients room)"
      and "buf (broadcast room) = pre @ m1 # mid @ m2 # post"
      and "marshal l m1 = Some b1"
      and "marshal l m2 = Some b2"
      and "run l t (length (pre @ m1 # mid @ [m2])) h = Inr h'"
      and "tenants h' t = Some room'"
      and "client \<in> set (clients room')"
  shows "buf (send (store h' client)) =
           buf (send (store h client)) @ List.map_filter (marshal l) pre
           @ b1 # List.map_filter (marshal l) mid @ [b2]
         \<and> (\<exists>u v. writePump_recv IoOk (send (store h' client)) =
                     Inr ([TextMessage (u @ b1 @ v @ newline @ b2)],
                          (send (store h' client))\<lparr>buf := []\<rparr>, True))"
proof -
  have q: "buf (broadcast room) = (pre @ m1 # mid @ [m2]) @ post"
    using assms(3) by simp
  then have n: "length (pre @ m1 # mid @ [m2]) \<le> length (buf (broadcast room))"
    by simp
  from run_fifo [OF assms(6) assms(1) n assms(2)] assms(7) assms(8)
  have "buf (send (store h' client)) =
          buf (send (store h client))
          @ List.map_filter (marshal l)
              (take (length (pre @ m1 # mid @ [m2])) (buf (broadcast room)))"
    by auto
  also have "take (length (pre @ m1 # mid @ [m2])) (buf (broadcast room)) = pre @ m1 # mid @ [m2]"
    unfolding q by (rule append_eq_conv_conj [THEN iffD1, THEN conjunct1, symmetric]) simp
  also have "List.map_filter (marshal l) (pre @ m1 # mid @ [m2]) =
       List.map_filter (marshal l) pre @ b1 # List.map_filter (marshal l) mid @ [b2]"
    using assms(4) assms(5) map_filter_append [of "marshal l" pre "m1 # mid @ [m2]"]
      map_filter_append [of "marshal l" mid "[m2]"]
    by (simp add: List.map_filter_simps)
  finally have order: "buf (send (store h' client)) =
           buf (send (store h client)) @ List.map_filter (marshal l) pre
           @ b1 # List.map_filter (marshal l) mid @ [b2]" .
  then have "buf (send (store h' client)) =
           (buf (send (store h client)) @ List.map_filter (marshal l) pre)
           @ b1 # List.map_filter (marshal l) mid @ [b2]"
    by simp
  from writePump_order [OF this] order show ?thesis by blast
qed

theorem room_fifo_witness:
  "run ex_lib 3 2 ex_two = Inr ex_delivered
   \<and> buf (send (store ex_delivered 1)) = [''user_joined:m1'', ''task_update:m4'']
   \<and> writePump_recv IoOk (send (store ex_delivered 1)) =
       Inr ([TextMessage (''user_joined:m1'' @ newline @ ''task_update:m4'')],
            \<lparr>buf = [], cap = 256, closed = False\<rparr>, True)"
proof -
  have r: "run ex_lib 3 (length ([] @ joinMessage ex_client 10 ''m1'' # [] @ [ex_update])) ex_two
           = Inr ex_delivered"
    by (simp add: run_step_def ex_two_def ex_delivered_def ex_room_def ex_lib_def ex_update_def
          joinMessage_def MessageTypeUserJoined_def ex_client_def make_chan_def
          send_or_drop_def chan_try_send_def Let_def)
  have t: "tenants ex_two 3 = Some (ex_room\<lparr>broadcast :=
                 \<lparr>buf = [joinMessage ex_client 10 ''m1'', ex_update], cap = 256,
                  closed = False\<rparr>\<rparr>)"
    by (simp add: ex_two_def)
  have t': "tenants ex_delivered 3 = Some (ex_room\<lparr>broadcast :=
                       \<lparr>buf = [], cap = 256, closed = False\<rparr>\<rparr>)"
    by (simp add: ex_delivered_def)
  have m1: "marshal ex_lib (joinMessage ex_client 10 ''m1'') = Some ''user_joined:m1''"
    by (simp add: ex_lib_def joinMessage_def MessageTypeUserJoined_def)
  have m2: "marshal ex_lib ex_update = Some ''task_update:m4''"
    by (simp add: ex_lib_def ex_update_def)
  have "buf (send (store ex_delivered 1)) =
           buf (send (store ex_two 1)) @ List.map_filter (marshal ex_lib) []
           @ ''user_joined:m1'' # List.map_filter (marshal ex_lib) [] @ [''task_update:m4'']"
    using room_fifo [OF t _ _ m1 m2 r t', of "[]" 1]
    by (simp add: ex_room_def)
  then have b: "buf (send (store ex_delivered 1)) = [''user_joined:m1'', ''task_update:m4'']"
    by (simp add: List.map_filter_simps ex_two_def ex_client_def make_chan_def)
  have w: "writePump_recv IoOk (send (store ex_delivered 1)) =
       Inr ([TextMessage (''user_joined:m1'' @ newline @ ''task_update:m4'')],
            \<lparr>buf = [], cap = 256, closed = False\<rparr>, True)"
    by (simp add: writePump_recv_def ex_delivered_def)
  have "length ([] @ joinMessage ex_client 10 ''m1'' # [] @ [ex_update]) = 2"
    by simp
  with r have r2: "run ex_lib 3 2 ex_two = Inr ex_delivered"
    by (simp only:)
  from r2 b w show ?thesis by simp
qed

subsection \<open>Tenant isolation\<close>

lemma send_user_frame:
  assumes "send_user userID b cs st = Inr (st', ms)"
  shows "set ms \<subseteq> set cs
         \<and> (\<forall>client. client \<notin> set cs \<longrightarrow> st' client = st client)
         \<and> (\<forall>client. Client.TenantID (st' client) = Client.TenantID (st client)
                      \<and> Client.UserID (st' client) = Client.UserID (st client))"
  using assms
proof (induction cs arbitrary: st st' ms)
  case Nil
  then show ?case by simp
next
  case (Cons a cs)
  show ?case
  proof (cases "Client.UserID (st a) = userID")
    case True
    with Cons.prems obtain ch keep rest where
      f: "send_user userID b cs (st(a := (st a)\<lparr>send := ch\<rparr>)) = Inr (st', rest)"
      and e: "ms = (if keep then a # rest else rest)"
      by (auto split: sum.splits prod.splits)
    from Cons.IH [OF f] e show ?thesis
      by (auto split: if_splits)
  next
    case False
    with Cons.prems obtain rest where
      f: "send_user userID b cs st = Inr (st', rest)" and e: "ms = a # rest"
      by (auto split: sum.splits prod.splits)
    from Cons.IH [OF f] e show ?thesis by auto
  qed
qed

lemma tenant_inv_NewHub: "tenant_inv (NewHub st)"
  by (simp add: tenant_inv_def NewHub_def)

lemma tenant_inv_room:
  assumes "tenant_inv h" and "tenants h t = Some room"
  shows "TenantRoom.TenantID room = t"
    and "\<forall>client \<in> set (clients room). Client.TenantID (store h client) = t"
    and "\<forall>m \<in> set (buf (broadcast room)). Message.TenantID m = t"
  using assms unfolding tenant_inv_def by blast+

lemma tenant_inv_update:
  assumes "tenant_inv h"
      and "\<forall>client. Client.TenantID (st client) = Client.TenantID (store h client)"
      and "TenantRoom.TenantID room = t"
      and "\<forall>client \<in> set (clients room). Client.TenantID (store h client) = t"
      and "\<forall>m \<in> set (buf (broadcast room)). Message.TenantID m = t"
  shows "tenant_inv (h\<lparr>tenants := (tenants h)(t \<mapsto> room), store := st\<rparr>)"
  unfolding tenant_inv_def
proof (intro allI impI)
  fix u r
  assume a: "tenants (h\<lparr>tenants := (tenants h)(t \<mapsto> room), store := st\<rparr>) u = Some r"
  show "TenantRoom.TenantID r = u
        \<and> (\<forall>client \<in> set (clients r).
              Client.TenantID (store (h\<lparr>tenants := (tenants h)(t \<mapsto> room), store := st\<rparr>) client) = u)
        \<and> (\<forall>m \<in> set (buf (broadcast r)). Message.TenantID m = u)"
  proof (cases "u = t")
    case True
    with a have "r = room" by simp
    with True assms(2-5) show ?thesis by simp
  next
    case False
    with a have "tenants h u = Some r" by simp
    from tenant_inv_room [OF assms(1) this] assms(2) show ?thesis by simp
  qed
qed

lemma tenant_inv_delete:
  assumes "tenant_inv h"
      and "\<forall>client. Client.TenantID (st client) = Client.TenantID (store h client)"
  shows "tenant_inv (h\<lparr>tenants := (tenants h)(t := None), store := st\<rparr>)"
  unfolding tenant_inv_def
proof (intro allI impI)
  fix u r
  assume a: "tenants (h\<lparr>tenants := (tenants h)(t := None), store := st\<rparr>) u = Some r"
  then have "tenants h u = Some r" by (cases "u = t") simp_all
  from tenant_inv_room [OF assms(1) this] assms(2)
  show "TenantRoom.TenantID r = u
        \<and> (\<forall>client \<in> set (clients r).
              Client.TenantID (store (h\<lparr>tenants := (tenants h)(t := None), store := st\<rparr>) client) = u)
        \<and> (\<forall>m \<in> set (buf (broadcast r)). Message.TenantID m = u)"
    by simp
qed

lemma tenant_inv_store:
  assumes "tenant_inv h"
      and "\<forall>client. Client.TenantID (st client) = Client.TenantID (store h client)"
  shows "tenant_inv (h\<lparr>store := st\<rparr>)"
  using assms unfolding tenant_inv_def by simp

lemma registerClient_new:
  "tenants h (Client.TenantID (store h client)) = None \<Longrightarrow>
   registerClient client now mid h =
     Inr (h\<lparr>tenants := (tenants h)(Client.TenantID (store h client) \<mapsto>
        \<lparr>TenantRoom.TenantID = Client.TenantID (store h client), clients = [client],
         broadcast = \<lparr>buf = [joinMessage (store h client) now mid], cap = 256, closed = False\<rparr>\<rparr>)\<rparr>)"
  by (simp add: registerClient_def Let_def chan_send_def make_chan_def add_client_def)

lemma registerClient_old:
  "tenants h (Client.TenantID (store h client)) = Some room \<Longrightarrow>
   registerClient client now mid h =
     (if closed (broadcast room) then Inl SendOnClosedChannel
      else if length (buf (broadcast room)) < cap (broadcast room) then
        Inr (h\<lparr>tenants := (tenants h)(Client.TenantID (store h client) \<mapsto>
          room\<lparr>clients := add_client client (clients room),
               broadcast := (broadcast room)\<lparr>buf := buf (broadcast room)
                                               @ [joinMessage (store h client) now mid]\<rparr>\<rparr>)\<rparr>)
      else Inl WouldBlock)"
  by (simp add: registerClient_def Let_def chan_send_def)

lemma tenant_inv_update_room:
  assumes "tenant_inv h"
      and "TenantRoom.TenantID room = t"
      and "\<forall>client \<in> set (clients room). Client.TenantID (store h client) = t"
      and "\<forall>m \<in> set (buf (broadcast room)). Message.TenantID m = t"
  shows "tenant_inv (h\<lparr>tenants := (tenants h)(t \<mapsto> room)\<rparr>)"
proof -
  have "tenant_inv (h\<lparr>tenants := (tenants h)(t \<mapsto> room), store := store h\<rparr>)"
    using assms by (intro tenant_inv_update) simp_all
  then show ?thesis by simp
qed

lemma set_add_client: "set (add_client client cs) = insert client (set cs)"
  by (auto simp: add_client_def)

lemma tenant_inv_join:
  assumes "tenant_inv h" "tenants h (Client.TenantID (store h client)) = Some room"
  shows "tenant_inv (h\<lparr>tenants := (tenants h)(Client.TenantID (store h client) \<mapsto> room\<lparr>clients := add_client client (clients room),
             broadcast := (broadcast room)\<lparr>buf := buf (broadcast room)
                                               @ [joinMessage (store h client) now mid]\<rparr>\<rparr>)\<rparr>)"
proof (rule tenant_inv_update_room)
  show "tenant_inv h" by fact
  show "TenantRoom.TenantID (room\<lparr>clients := add_client client (clients room),
             broadcast := (broadcast room)\<lparr>buf := buf (broadcast room)
                                               @ [joinMessage (store h client) now mid]\<rparr>\<rparr>) = Client.TenantID (store h client)"
    using tenant_inv_room(1) [OF assms] by simp
  show "\<forall>c \<in> set (clients (room\<lparr>clients := add_client client (clients room),
             broadcast := (broadcast room)\<lparr>buf := buf (broadcast room)
                                               @ [joinMessage (store h client) now mid]\<rparr>\<rparr>)).
          Client.TenantID (store h c) = Client.TenantID (store h client)"
    using tenant_inv_room(2) [OF assms] by (simp add: set_add_client)
  show "\<forall>m \<in> set (buf (broadcast (room\<lparr>clients := add_client client (clients room),
             broadcast := (broadcast room)\<lparr>buf := buf (broadcast room)
                                               @ [joinMessage (store h client) now mid]\<rparr>\<rparr>))).
          Message.TenantID m = Client.TenantID (store h client)"
    using tenant_inv_room(3) [OF assms] by (simp add: joinMessage_def)
qed

lemma tenant_inv_register:
  assumes "tenant_inv h" and "registerClient client now mid h = Inr h'"
  shows "tenant_inv h'"
proof -
  let ?t = "Client.TenantID (store h client)"
  show ?thesis
  proof (cases "tenants h ?t")
    case None
    let ?room = "\<lparr>TenantRoom.TenantID = ?t, clients = [client],
         broadcast = \<lparr>buf = [joinMessage (store h client) now mid], cap = 256, closed = False\<rparr>\<rparr>"
    from registerClient_new [OF None, of now mid] assms(2)
    have "h' = h\<lparr>tenants := (tenants h)(?t \<mapsto> ?room)\<rparr>"
      by simp
    moreover have "tenant_inv (h\<lparr>tenants := (tenants h)(?t \<mapsto> ?room)\<rparr>)"
      using assms(1) by (intro tenant_inv_update_room) (simp_all add: joinMessage_def)
    ultimately show ?thesis by simp
  next
    case (Some room)
    let ?room = "room\<lparr>clients := add_client client (clients room),
             broadcast := (broadcast room)\<lparr>buf := buf (broadcast room)
                                               @ [joinMessage (store h client) now mid]\<rparr>\<rparr>"
    from registerClient_old [OF Some, of now mid] assms(2)
    have "h' = h\<lparr>tenants := (tenants h)(?t \<mapsto> ?room)\<rparr>"
      by (simp split: if_splits)
    with tenant_inv_join [OF assms(1) Some, of now mid] show ?thesis by simp
  qed
qed

lemma tenant_inv_unregister:
  assumes "tenant_inv h" and "unregisterClient client now mid h = Inr h'"
  shows "tenant_inv h'"
proof -
  let ?t = "Client.TenantID (store h client)"
  show ?thesis
  proof (cases "tenants h ?t")
    case None
    with assms show ?thesis by (simp add: unregisterClient_def)
  next
    case (Some room)
    show ?thesis
    proof (cases "client \<in> set (clients room)")
      case False
      with Some assms show ?thesis by (simp add: unregisterClient_def)
    next
      case True
      let ?st = "(store h)(client := (store h client)\<lparr>send := (send (store h client))\<lparr>closed := True\<rparr>\<rparr>)"
      let ?room = "room\<lparr>clients := removeAll client (clients room),
                        broadcast := (broadcast room)\<lparr>buf := buf (broadcast room)
                                               @ [leaveMessage (store h client) now mid]\<rparr>\<rparr>"
      have st: "\<forall>c. Client.TenantID (?st c) = Client.TenantID (store h c)" by simp
      from True Some assms(2)
      have "h' = h\<lparr>tenants := (tenants h)(?t := None), store := ?st\<rparr>
            \<or> h' = h\<lparr>tenants := (tenants h)(?t \<mapsto> ?room), store := ?st\<rparr>"
        by (simp add: unregisterClient_def Let_def chan_send_def chan_close_def
                 split: if_splits)
      moreover have "tenant_inv (h\<lparr>tenants := (tenants h)(?t := None), store := ?st\<rparr>)"
        using assms(1) st by (rule tenant_inv_delete)
      moreover have "tenant_inv (h\<lparr>tenants := (tenants h)(?t \<mapsto> ?room), store := ?st\<rparr>)"
        using assms(1) st tenant_inv_room [OF assms(1) Some]
        by (intro tenant_inv_update) (auto simp: leaveMessage_def)
      ultimately show ?thesis by blast
    qed
  qed
qed

lemma tenant_inv_broadcastMessage:
  assumes "tenant_inv h" and "broadcastMessage m h = Inr h'"
  shows "tenant_inv h'"
proof (cases "tenants h (Message.TenantID m)")
  case None
  with assms show ?thesis by (simp add: broadcastMessage_def)
next
  case (Some room)
  let ?room = "room\<lparr>broadcast := (broadcast room)\<lparr>buf := buf (broadcast room) @ [m]\<rparr>\<rparr>"
  from Some assms(2)
  have "h' = h \<or> h' = h\<lparr>tenants := (tenants h)(Message.TenantID m \<mapsto> ?room)\<rparr>"
    by (auto simp: broadcastMessage_def chan_try_send_def split: if_splits)
  moreover have "tenant_inv (h\<lparr>tenants := (tenants h)(Message.TenantID m \<mapsto> ?room)\<rparr>)"
    using assms(1) tenant_inv_room [OF assms(1) Some]
    by (intro tenant_inv_update_room) auto
  ultimately show ?thesis using assms(1) by blast
qed

lemma tenant_inv_BroadcastToTenant:
  assumes "tenant_inv h" and "BroadcastToTenant tenantID ty data now mid ready h = Inr h'"
  shows "tenant_inv h'"
proof (cases ready)
  case True
  with assms(2) tenant_inv_broadcastMessage [OF assms(1)] show ?thesis
    by (simp add: BroadcastToTenant_def)
next
  case False
  with assms show ?thesis by (simp add: BroadcastToTenant_def)
qed

lemma tenant_inv_BroadcastToUser:
  assumes "tenant_inv h" and "BroadcastToUser l tenantID userID ty data now mid h = Inr h'"
  shows "tenant_inv h'"
proof (cases "tenants h tenantID")
  case None
  with assms show ?thesis by (simp add: BroadcastToUser_def)
next
  case (Some room)
  show ?thesis
  proof (cases "marshal l (userMessage tenantID userID ty data now mid)")
    case None
    with Some assms show ?thesis by (simp add: BroadcastToUser_def)
  next
    case (Some b)
    with \<open>tenants h tenantID = Some room\<close> assms(2) obtain st ms where
      f: "send_user userID b (clients room) (store h) = Inr (st, ms)"
      and h': "h' = h\<lparr>tenants := (tenants h)(tenantID \<mapsto> room\<lparr>clients := ms\<rparr>), store := st\<rparr>"
      by (auto simp: BroadcastToUser_def split: sum.splits)
    from send_user_frame [OF f] have sub: "set ms \<subseteq> set (clients room)"
      and st: "\<forall>client. Client.TenantID (st client) = Client.TenantID (store h client)"
      by simp_all
    have "tenant_inv (h\<lparr>tenants := (tenants h)(tenantID \<mapsto> room\<lparr>clients := ms\<rparr>), store := st\<rparr>)"
    proof (rule tenant_inv_update)
      show "tenant_inv h" by fact
      show "\<forall>client. Client.TenantID (st client) = Client.TenantID (store h client)" by fact
      show "TenantRoom.TenantID (room\<lparr>clients := ms\<rparr>) = tenantID"
        using tenant_inv_room(1) [OF assms(1) \<open>tenants h tenantID = Some room\<close>] by simp
      show "\<forall>client \<in> set (clients (room\<lparr>clients := ms\<rparr>)).
              Client.TenantID (store h client) = tenantID"
        using tenant_inv_room(2) [OF assms(1) \<open>tenants h tenantID = Some room\<close>] sub by auto
      show "\<forall>m \<in> set (buf (broadcast (room\<lparr>clients := ms\<rparr>))). Message.TenantID m = tenantID"
        using tenant_inv_room(3) [OF assms(1) \<open>tenants h tenantID = Some room\<close>] by simp
    qed
    with h' show ?thesis by simp
  qed
qed

lemma tenant_inv_run_step:
  assumes "tenant_inv h" and "run_step l t h = Inr h'"
  shows "tenant_inv h'"
proof (cases "tenants h t")
  case None
  with assms show ?thesis by (simp add: run_step_def)
next
  case (Some room)
  from assms(2) Some obtain m queue where q: "buf (broadcast room) = m # queue"
    by (cases "buf (broadcast room)") (auto simp: run_step_def)
  let ?room = "room\<lparr>broadcast := (broadcast room)\<lparr>buf := queue\<rparr>\<rparr>"
  have rid: "TenantRoom.TenantID room = t"
    and rcl: "\<forall>client \<in> set (clients room). Client.TenantID (store h client) = t"
    and rq: "\<forall>m \<in> set (buf (broadcast room)). Message.TenantID m = t"
    using tenant_inv_room [OF assms(1) Some] by simp_all
  show ?thesis
  proof (cases "marshal l m")
    case None
    with assms(2) Some q have "h' = h\<lparr>tenants := (tenants h)(t \<mapsto> ?room)\<rparr>"
      by (simp add: run_step_def Let_def)
    moreover have "tenant_inv (h\<lparr>tenants := (tenants h)(t \<mapsto> ?room)\<rparr>)"
    proof (rule tenant_inv_update_room)
      show "tenant_inv h" by fact
      show "TenantRoom.TenantID ?room = t" using rid by simp
      show "\<forall>client \<in> set (clients ?room). Client.TenantID (store h client) = t"
        using rcl by simp
      show "\<forall>m \<in> set (buf (broadcast ?room)). Message.TenantID m = t"
        using rq q by simp
    qed
    ultimately show ?thesis by simp
  next
    case (Some b)
    with assms(2) \<open>tenants h t = Some room\<close> q obtain st ms where
      f: "fanout b (clients room) (store h) = Inr (st, ms)"
      and h': "h' = h\<lparr>tenants := (tenants h)(t \<mapsto> ?room\<lparr>clients := ms\<rparr>), store := st\<rparr>"
      by (auto simp: run_step_def Let_def split: sum.splits)
    from fanout_frame [OF f] have sub: "set ms \<subseteq> set (clients room)"
      and st: "\<forall>client. Client.TenantID (st client) = Client.TenantID (store h client)"
      by simp_all
    have "tenant_inv (h\<lparr>tenants := (tenants h)(t \<mapsto> ?room\<lparr>clients := ms\<rparr>), store := st\<rparr>)"
    proof (rule tenant_inv_update)
      show "tenant_inv h" by fact
      show "\<forall>client. Client.TenantID (st client) = Client.TenantID (store h client)" by fact
      show "TenantRoom.TenantID (?room\<lparr>clients := ms\<rparr>) = t" using rid by simp
      show "\<forall>client \<in> set (clients (?room\<lparr>clients := ms\<rparr>)).
              Client.TenantID (store h client) = t"
        using rcl sub by auto
      show "\<forall>m \<in> set (buf (broadcast (?room\<lparr>clients := ms\<rparr>))). Message.TenantID m = t"
        using rq q by simp
    qed
    with h' show ?thesis by simp
  qed
qed

lemma tenant_inv_perform:
  assumes "tenant_inv h" and "perform l client x h = Inr h'"
  shows "tenant_inv h'"
proof (cases x)
  case (HubBroadcast m)
  with assms(2) tenant_inv_broadcastMessage [OF assms(1)] show ?thesis
    by (simp add: perform_def)
next
  case (SendOrClose m)
  show ?thesis
  proof (cases "marshal l m")
    case None
    with SendOrClose assms show ?thesis by (simp add: perform_def)
  next
    case (Some b)
    with SendOrClose assms(2) obtain ch where
      "h' = h\<lparr>store := (store h)(client := (store h client)\<lparr>send := ch\<rparr>)\<rparr>"
      by (auto simp: perform_def Let_def split: sum.splits option.splits)
    moreover have "tenant_inv (h\<lparr>store := (store h)(client := (store h client)\<lparr>send := ch\<rparr>)\<rparr>)"
      using assms(1) by (rule tenant_inv_store) simp
    ultimately show ?thesis by simp
  qed
qed

lemma tenant_inv_step:
  assumes "tenant_inv h" and "step l x h = Inr h'"
  shows "tenant_inv h'"
proof (cases x)
  case (Register client now mid)
  with assms tenant_inv_register show ?thesis by simp
next
  case (Unregister client now mid)
  with assms tenant_inv_unregister show ?thesis by simp
next
  case (ToTenant tenantID ty data now mid ready)
  with assms tenant_inv_BroadcastToTenant show ?thesis by simp
next
  case (ToUser tenantID userID ty data now mid)
  with assms tenant_inv_BroadcastToUser show ?thesis by simp
next
  case (RoomRun t)
  with assms tenant_inv_run_step show ?thesis by simp
next
  case (ReadFrame client messageBytes fr)
  with assms tenant_inv_perform show ?thesis by (simp add: readPump_frame_def)
next
  case (WriteRecv client conn)
  with assms(2) obtain ch where
    "h' = h\<lparr>store := (store h)(client := (store h client)\<lparr>send := ch\<rparr>)\<rparr>"
    by (auto split: sum.splits)
  moreover have "tenant_inv (h\<lparr>store := (store h)(client := (store h client)\<lparr>send := ch\<rparr>)\<rparr>)"
    using assms(1) by (rule tenant_inv_store) simp
  ultimately show ?thesis by simp
qed

lemma tenant_inv_exec:
  assumes "tenant_inv h" and "exec l xs h = Inr h'"
  shows "tenant_inv h'"
  using assms
proof (induction xs arbitrary: h)
  case Nil
  then show ?case by simp
next
  case (Cons x xs)
  from Cons.prems(2) obtain h1 where s: "step l x h = Inr h1" and e: "exec l xs h1 = Inr h'"
    by (auto split: sum.splits)
  from tenant_inv_step [OF Cons.prems(1) s] e show ?case by (rule Cons.IH)
qed

lemma broadcastMessage_frame:
  assumes "broadcastMessage m0 h = Inr h1"
  shows "store h1 = store h"
    and "u \<noteq> Message.TenantID m0 \<Longrightarrow> tenants h1 u = tenants h u"
proof -
  have "store h1 = store h \<and> (u \<noteq> Message.TenantID m0 \<longrightarrow> tenants h1 u = tenants h u)"
  proof (cases "tenants h (Message.TenantID m0)")
    case None
    with assms show ?thesis by (simp add: broadcastMessage_def)
  next
    case (Some room)
    with assms
    have "h1 = h \<or> h1 = h\<lparr>tenants := (tenants h)(Message.TenantID m0 \<mapsto>
                   room\<lparr>broadcast := (broadcast room)\<lparr>buf := buf (broadcast room) @ [m0]\<rparr>\<rparr>)\<rparr>"
      by (auto simp: broadcastMessage_def chan_try_send_def split: if_splits)
    then show ?thesis by auto
  qed
  then show "store h1 = store h"
    and "u \<noteq> Message.TenantID m0 \<Longrightarrow> tenants h1 u = tenants h u"
    by simp_all
qed

text \<open>
  Claim C1. In every state that the hub reaches from a new hub by any sequence of steps,
  the message at the head of a room's broadcast queue belongs to the room's tenant, and
  the fan-out of that message changes the outbound queue only of connections of that
  tenant: a connection of another tenant is left as it was. The hub's routing of a
  broadcast puts the message into no room but the one of the message's tenant and touches
  no connection.
\<close>

theorem tenant_isolation:
  assumes "exec l ops (NewHub st0) = Inr h"
      and "tenants h t = Some room"
      and "buf (broadcast room) = m # queue"
      and "run_step l t h = Inr h'"
  shows "Message.TenantID m = t
         \<and> (\<forall>client. send (store h' client) \<noteq> send (store h client) \<longrightarrow>
                Client.TenantID (store h client) = Message.TenantID m)
         \<and> (\<forall>client. Client.TenantID (store h client) \<noteq> Message.TenantID m \<longrightarrow>
                store h' client = store h client)
         \<and> (\<forall>m0 h1. broadcastMessage m0 h = Inr h1 \<longrightarrow>
                store h1 = store h
                \<and> (\<forall>u. u \<noteq> Message.TenantID m0 \<longrightarrow> tenants h1 u = tenants h u))"
proof -
  have inv: "tenant_inv h"
    using tenant_inv_NewHub assms(1) by (rule tenant_inv_exec)
  from tenant_inv_room(3) [OF inv assms(2)] assms(3) have mt: "Message.TenantID m = t"
    by simp
  have members: "\<forall>client \<in> set (clients room). Client.TenantID (store h client) = t"
    using tenant_inv_room(2) [OF inv assms(2)] .
  have outside: "\<forall>client. client \<notin> set (clients room) \<longrightarrow> store h' client = store h client"
  proof (cases "marshal l m")
    case None
    with assms(2-4) have "store h' = store h"
      by (auto simp: run_step_def Let_def)
    then show ?thesis by simp
  next
    case (Some b)
    with assms(2-4) obtain st ms where
      f: "fanout b (clients room) (store h) = Inr (st, ms)" and "store h' = st"
      by (auto simp: run_step_def Let_def split: sum.splits)
    with fanout_frame [OF f] show ?thesis by simp
  qed
  have changed: "\<forall>client. send (store h' client) \<noteq> send (store h client) \<longrightarrow>
                Client.TenantID (store h client) = Message.TenantID m"
  proof (intro allI impI)
    fix client assume "send (store h' client) \<noteq> send (store h client)"
    with outside have "client \<in> set (clients room)" by auto
    with members mt show "Client.TenantID (store h client) = Message.TenantID m" by simp
  qed
  have other: "\<forall>client. Client.TenantID (store h client) \<noteq> Message.TenantID m \<longrightarrow>
                store h' client = store h client"
  proof (intro allI impI)
    fix client assume "Client.TenantID (store h client) \<noteq> Message.TenantID m"
    with members mt have "client \<notin> set (clients room)" by auto
    with outside show "store h' client = store h client" by simp
  qed
  have routing: "\<forall>m0 h1. broadcastMessage m0 h = Inr h1 \<longrightarrow>
                store h1 = store h
                \<and> (\<forall>u. u \<noteq> Message.TenantID m0 \<longrightarrow> tenants h1 u = tenants h u)"
    using broadcastMessage_frame by blast
  from mt changed other routing show ?thesis by (iprover intro: conjI)
qed

theorem tenant_isolation_witness:
  "exec ex_lib [Register 1 10 ''m1'', Register 2 11 ''m5''] (NewHub ((\<lambda>a. ex_client)(2 := ex_other)))
     = Inr ex_both
   \<and> tenants ex_both 3 = Some ex_room
   \<and> buf (broadcast ex_room) = [joinMessage ex_client 10 ''m1'']
   \<and> Client.TenantID (store ex_both 2) = 4
   \<and> (case run_step ex_lib 3 ex_both of
         Inl e \<Rightarrow> False
       | Inr h' \<Rightarrow> store h' 2 = store ex_both 2
                  \<and> buf (send (store h' 1)) = [''user_joined:m1''])"
proof -
  have e: "exec ex_lib [Register 1 10 ''m1'', Register 2 11 ''m5'']
             (NewHub ((\<lambda>a. ex_client)(2 := ex_other))) = Inr ex_both"
    by (simp add: registerClient_def NewHub_def ex_both_def ex_room_def ex_client_def
          ex_other_def make_chan_def chan_send_def add_client_def Let_def)
  have t: "tenants ex_both 3 = Some ex_room"
    by (simp add: ex_both_def)
  have q: "buf (broadcast ex_room) = joinMessage ex_client 10 ''m1'' # []"
    by (simp add: ex_room_def)
  have "\<exists>h'. run_step ex_lib 3 ex_both = Inr h' \<and> buf (send (store h' 1)) = [''user_joined:m1'']"
    by (simp add: run_step_def ex_both_def ex_room_def ex_lib_def joinMessage_def
          MessageTypeUserJoined_def ex_client_def ex_other_def make_chan_def
          send_or_drop_def chan_try_send_def Let_def)
  then obtain h' where r: "run_step ex_lib 3 ex_both = Inr h'"
    and b: "buf (send (store h' 1)) = [''user_joined:m1'']"
    by blast
  have other: "Client.TenantID (store ex_both 2) = 4"
    by (simp add: ex_both_def ex_other_def)
  have m: "Message.TenantID (joinMessage ex_client 10 ''m1'') = 3"
    by (simp add: joinMessage_def ex_client_def)
  have "Client.TenantID (store ex_both 2) \<noteq> Message.TenantID (joinMessage ex_client 10 ''m1'')
        \<longrightarrow> store h' 2 = store ex_both 2"
    using tenant_isolation [OF e t q r] by blast
  with m other have s: "store h' 2 = store ex_both 2"
    by simp
  have c: "(case run_step ex_lib 3 ex_both of
         Inl e \<Rightarrow> False
       | Inr h' \<Rightarrow> store h' 2 = store ex_both 2
                  \<and> buf (send (store h' 1)) = [''user_joined:m1''])"
    using r s b by (simp only: sum.case)
  have q': "buf (broadcast ex_room) = [joinMessage ex_client 10 ''m1'']"
    using q .
  from e t q' other c show ?thesis by (iprover intro: conjI)
qed

end
